theory Spec2Isabelle
  imports Main "HOL-Library.Sublist"
begin

section \<open>Data model of main.go\<close>

text \<open>
  Go strings are byte sequences; \<open>string\<close> (a list of 8-bit characters) is the same data.
  Go's \<open>int\<close> and \<open>time.Duration\<close> are modelled as \<open>int\<close>: the program only compares
  and increments them on values far from the 64-bit bounds (the retry count is 3, the
  concurrency limit 5).
\<close>

record AppConfig =
  YoutubeAPIKey :: string
  GeminiAPIKey :: string
  PlaylistID :: string
  GeminiModel :: string
  TempTranscriptDir :: string
  MaxTranscriptRetries :: int
  TranscriptRetryDelay :: int
  LLMTimeout :: int
  ConcurrencyLimit :: int
  SummaryWordCount :: int

record VideoDetails =
  ID :: string
  Title :: string

text \<open>
  A Go \<open>error\<close> value is either produced by \<open>fmt.Errorf\<close> in main.go, kept here as the
  format string with its arguments (\<open>%w\<close> wraps another error), or comes out of an
  external library and is opaque. \<open>nil\<close> is \<open>None\<close> of \<open>error option\<close>.
\<close>

datatype error = External string | Errorf string "fmtarg list"
  and fmtarg = ArgS string | ArgI int | ArgW error

record ProcessingResult =
  VideoDetails :: VideoDetails
  Summary :: string
  Err :: "error option"

definition defaultPlaylistID :: string where
  "defaultPlaylistID = ''PL8GTokWa3GEeH8kUkx0rzRWwrzlvO8JaT''"

definition defaultGeminiModel :: string where
  "defaultGeminiModel = ''gemini-1.5-flash-latest''"

definition defaultTempTranscriptDir :: string where
  "defaultTempTranscriptDir = ''./transcripts_temp''"

definition defaultMaxTranscriptRetries :: int where
  "defaultMaxTranscriptRetries = 3"

definition defaultTranscriptRetryDelay :: int where
  "defaultTranscriptRetryDelay = 5 * 1000000000"

definition defaultLLMTimeout :: int where
  "defaultLLMTimeout = 60 * 1000000000"

definition defaultConcurrencyLimit :: int where
  "defaultConcurrencyLimit = 5"

definition defaultSummaryWordCount :: int where
  "defaultSummaryWordCount = 15"

definition summaryPromptFormat :: string where
  "summaryPromptFormat =
     ''Summarize this video transcript in exactly %d words:'' @ [CHR 0x0A, CHR 0x0A] @
     ''Transcript:'' @ [CHR 0x0A, CHR 0x22] @ ''%s'' @ [CHR 0x22]"

definition envYoutubeAPIKey :: string where
  "envYoutubeAPIKey = ''YOUTUBE_API_KEY''"

definition envGeminiAPIKey :: string where
  "envGeminiAPIKey = ''GEMINI_API_KEY''"

definition envPlaylistID :: string where
  "envPlaylistID = ''PLAYLIST_ID''"

definition envGeminiModel :: string where
  "envGeminiModel = ''GEMINI_MODEL''"

text \<open>The process environment: \<open>os.Getenv\<close> returns the empty string for an unset name.\<close>

definition getEnvWithDefault :: "(string \<Rightarrow> string) \<Rightarrow> string \<Rightarrow> string \<Rightarrow> string" where
  "getEnvWithDefault Getenv key defaultValue =
     (if Getenv key \<noteq> [] then Getenv key else defaultValue)"

definition initializeAppConfig :: "(string \<Rightarrow> string) \<Rightarrow> error + AppConfig" where
  "initializeAppConfig Getenv =
     (let cfg = \<lparr> YoutubeAPIKey = Getenv envYoutubeAPIKey,
                  GeminiAPIKey = Getenv envGeminiAPIKey,
                  PlaylistID = getEnvWithDefault Getenv envPlaylistID defaultPlaylistID,
                  GeminiModel = getEnvWithDefault Getenv envGeminiModel defaultGeminiModel,
                  TempTranscriptDir = defaultTempTranscriptDir,
                  MaxTranscriptRetries = defaultMaxTranscriptRetries,
                  TranscriptRetryDelay = defaultTranscriptRetryDelay,
                  LLMTimeout = defaultLLMTimeout,
                  ConcurrencyLimit = defaultConcurrencyLimit,
                  SummaryWordCount = defaultSummaryWordCount \<rparr>
      in if YoutubeAPIKey cfg = []
         then Inl (Errorf ''%s environment variable must be set'' [ArgS envYoutubeAPIKey])
         else Inr cfg)"

section \<open>The strings package\<close>

text \<open>\<open>strings.Contains s substr\<close>: \<open>substr\<close> occurs in \<open>s\<close> as a contiguous block.\<close>

fun Contains :: "string \<Rightarrow> string \<Rightarrow> bool" where
  "Contains [] substr = (substr = [])"
| "Contains (c # cs) substr = (prefix substr (c # cs) \<or> Contains cs substr)"

text \<open>
  \<open>strings.TrimSpace\<close> removes leading and trailing Unicode white space. A rune is white
  space for \<open>unicode.IsSpace\<close> exactly when it is one of U+0009..U+000D, U+0020, U+0085,
  U+00A0, U+1680, U+2000..U+200A, U+2028, U+2029, U+202F, U+205F, U+3000. Each has one
  UTF-8 encoding, and an ill-formed byte decodes to U+FFFD, which is no space; so a string
  starts (ends) with a space rune exactly when one of these encodings is a prefix
  (suffix) of its bytes.
\<close>

definition spaceRunes :: "string list" where
  "spaceRunes =
     [[CHR 0x09], [CHR 0x0A], [CHR 0x0B], [CHR 0x0C], [CHR 0x0D], [CHR 0x20],
      [CHR 0xC2, CHR 0x85], [CHR 0xC2, CHR 0xA0],
      [CHR 0xE1, CHR 0x9A, CHR 0x80],
      [CHR 0xE2, CHR 0x80, CHR 0x80], [CHR 0xE2, CHR 0x80, CHR 0x81],
      [CHR 0xE2, CHR 0x80, CHR 0x82], [CHR 0xE2, CHR 0x80, CHR 0x83],
      [CHR 0xE2, CHR 0x80, CHR 0x84], [CHR 0xE2, CHR 0x80, CHR 0x85],
      [CHR 0xE2, CHR 0x80, CHR 0x86], [CHR 0xE2, CHR 0x80, CHR 0x87],
      [CHR 0xE2, CHR 0x80, CHR 0x88], [CHR 0xE2, CHR 0x80, CHR 0x89],
      [CHR 0xE2, CHR 0x80, CHR 0x8A],
      [CHR 0xE2, CHR 0x80, CHR 0xA8], [CHR 0xE2, CHR 0x80, CHR 0xA9],
      [CHR 0xE2, CHR 0x80, CHR 0xAF], [CHR 0xE2, CHR 0x81, CHR 0x9F],
      [CHR 0xE3, CHR 0x80, CHR 0x80]]"

text \<open>The width in bytes of the space rune a string starts with, 0 when it starts with none.\<close>

definition leadingSpace :: "string \<Rightarrow> nat" where
  "leadingSpace s = (case filter (\<lambda>r. prefix r s) spaceRunes of [] \<Rightarrow> 0 | r # _ \<Rightarrow> length r)"

fun trimLeftSteps :: "nat \<Rightarrow> string \<Rightarrow> string" where
  "trimLeftSteps 0 s = s"
| "trimLeftSteps (Suc n) s =
     (if leadingSpace s = 0 then s else trimLeftSteps n (drop (leadingSpace s) s))"

text \<open>
  Every step removes at least one byte, so \<open>length s\<close> steps strip every leading space
  rune; the trailing ones are stripped the same way from the end.
\<close>

definition TrimLeft :: "string \<Rightarrow> string" where
  "TrimLeft s = trimLeftSteps (length s) s"

definition trailingSpace :: "string \<Rightarrow> nat" where
  "trailingSpace s = (case filter (\<lambda>r. suffix r s) spaceRunes of [] \<Rightarrow> 0 | r # _ \<Rightarrow> length r)"

fun trimRightSteps :: "nat \<Rightarrow> string \<Rightarrow> string" where
  "trimRightSteps 0 s = s"
| "trimRightSteps (Suc n) s =
     (if trailingSpace s = 0 then s
      else trimRightSteps n (take (length s - trailingSpace s) s))"

definition TrimRight :: "string \<Rightarrow> string" where
  "TrimRight s = trimRightSteps (length s) s"

definition TrimSpace :: "string \<Rightarrow> string" where
  "TrimSpace s = TrimRight (TrimLeft s)"

section \<open>External collaborators\<close>

text \<open>
  The parsed subtitle file of go-astisub, as getVideoTranscript reads it: items, their
  lines, the line items and their text.
\<close>

datatype LineItem = LineItem (Text: string)
datatype Line = Line (LineItems: "LineItem list")
datatype Item = Item (Lines: "Line list")
datatype Subtitles = Subtitles (Items: "Item list")

text \<open>
  The response of the generative model, as summarizeTranscriptWithGemini reads it: its
  candidates, and of a candidate the pointer \<open>Content\<close>, which is nil (\<open>None\<close>) or points to
  a content with its parts (\<open>Some parts\<close>). A part is a \<open>genai.Text\<close> or a value of another
  type (kept by the name of its type). A response that comes with a nil error is present.
\<close>

datatype Part = TextPart string | OtherPart string
datatype Candidate = Candidate (Content: "Part list option")
datatype GenerateContentResponse = GenerateContentResponse (Candidates: "Candidate list")

text \<open>
  A run-time panic. Nothing in main.go recovers from one: in a goroutine it runs the
  deferred calls of that goroutine and then ends the whole process.
\<close>

datatype panic = NilPointerDereference

text \<open>A formatted string: the format and its arguments, as handed to \<open>fmt.Sprintf\<close>.\<close>

type_synonym formatted = "string \<times> fmtarg list"

text \<open>
  A \<open>*genai.GenerativeModel\<close> is what GenerateContent answers to a prompt; the nil client is
  \<open>None\<close> of \<open>GenerativeModel option\<close>.
\<close>

type_synonym GenerativeModel = "formatted \<Rightarrow> error + GenerateContentResponse"

text \<open>
  The operating system and the libraries as getVideoTranscript meets them. The yt-dlp run
  is asked by video URL and attempt number, since the retry loop runs the same command
  again and may get another answer; two workers on the same video get the same answers.
  \<open>filepath.Join\<close> is taken as it is given, on its two arguments.
\<close>

record World =
  MkdirAll :: "string \<Rightarrow> error option"
  Join :: "string \<Rightarrow> string \<Rightarrow> string"
  CombinedOutput :: "string \<Rightarrow> int \<Rightarrow> string \<times> error option"
  Glob :: "string \<Rightarrow> string list \<times> error option"
  OpenFile :: "string \<Rightarrow> error + Subtitles"

text \<open>
  What a worker does outside its own variables, in the order it does it: a run of the
  yt-dlp command (video URL, attempt), a \<open>time.Sleep\<close>, the deferred \<open>os.Remove\<close>, a call of
  summarizeTranscriptWithGemini (with the transcript passed) and the GenerateContent
  request (prompt, timeout of its context).
\<close>

datatype event =
    RunYtDlp string int
  | Sleep int
  | Remove string
  | Summarize string
  | GenerateContent formatted int

section \<open>Transcript fetching and parsing\<close>

definition noSubtitles :: "string \<Rightarrow> bool" where
  "noSubtitles output =
     (Contains output ''no subtitles'' \<or> Contains output ''no suitable subtitles found'')"

text \<open>
  How the retry loop of getVideoTranscript is left: by \<open>return "", nil\<close> inside it, or to the
  statement after it (by \<open>break\<close> or by the loop condition) with the last \<open>output\<close> and \<open>err\<close>.
\<close>

datatype loopExit = Returned | Fallthrough string "error option"

function retryLoop ::
  "World \<Rightarrow> AppConfig \<Rightarrow> string \<Rightarrow> int \<Rightarrow> string \<Rightarrow> error option \<Rightarrow> event list
     \<Rightarrow> loopExit \<times> event list" where
  "retryLoop w cfg videoURL attempt output err evs =
     (if attempt \<le> MaxTranscriptRetries cfg then
        (let (output', err') = CombinedOutput w videoURL attempt;
             evs' = evs @ [RunYtDlp videoURL attempt]
         in if err' = None then
              (if noSubtitles output' then (Returned, evs')
               else (Fallthrough output' err', evs'))
            else if noSubtitles output' then (Returned, evs')
            else retryLoop w cfg videoURL (attempt + 1) output' err'
                   (if attempt < MaxTranscriptRetries cfg
                    then evs' @ [Sleep (TranscriptRetryDelay cfg)] else evs'))
      else (Fallthrough output err, evs))"
  by pat_completeness auto
termination
  by (relation "measure (\<lambda>(w, cfg, videoURL, attempt, output, err, evs).
        nat (MaxTranscriptRetries cfg + 1 - attempt))") auto

declare retryLoop.simps [simp del]

text \<open>The three nested loops over the parsed subtitles that fill the string builder.\<close>

definition writeLine :: "Line \<Rightarrow> string" where
  "writeLine line = concat (map (\<lambda>lineItem. Text lineItem @ '' '') (LineItems line))"

definition writeItem :: "Item \<Rightarrow> string" where
  "writeItem item = concat (map writeLine (Lines item)) @ '' ''"

definition buildTranscript :: "Subtitles \<Rightarrow> string" where
  "buildTranscript subs = concat (map writeItem (Items subs))"

text \<open>
  The part of getVideoTranscript after the yt-dlp run succeeded. The deferred
  \<open>os.Remove(vttFilePath)\<close> is registered once a file is chosen and so runs on each of the
  three returns after that point.
\<close>

definition parseTranscript ::
  "World \<Rightarrow> AppConfig \<Rightarrow> string \<Rightarrow> (string \<times> error option) \<times> event list" where
  "parseTranscript w cfg videoID =
     (let vttFileNamePattern = Join w (TempTranscriptDir cfg) (videoID @ ''.*.vtt'');
          (matches, globErr) = Glob w vttFileNamePattern
      in case globErr of
           Some e \<Rightarrow>
             (([], Some (Errorf ''video %s: error searching VTT pattern %s: %w''
                     [ArgS videoID, ArgS vttFileNamePattern, ArgW e])), [])
         | None \<Rightarrow>
             (let matches' = (if matches = []
                              then fst (Glob w (Join w (TempTranscriptDir cfg) (videoID @ ''.vtt'')))
                              else matches)
              in case matches' of
                   [] \<Rightarrow> (([], None), [])
                 | vttFilePath # _ \<Rightarrow>
                     (case OpenFile w vttFilePath of
                        Inl openErr \<Rightarrow>
                          (([], Some (Errorf ''video %s: failed to open/parse VTT file %s: %w''
                                  [ArgS videoID, ArgS vttFilePath, ArgW openErr])),
                           [Remove vttFilePath])
                      | Inr subs \<Rightarrow>
                          (let fullTranscript = TrimSpace (buildTranscript subs)
                           in if fullTranscript = [] then (([], None), [Remove vttFilePath])
                              else ((fullTranscript, None), [Remove vttFilePath])))))"

definition getVideoTranscript ::
  "World \<Rightarrow> string \<Rightarrow> AppConfig \<Rightarrow> (string \<times> error option) \<times> event list" where
  "getVideoTranscript w videoID cfg =
     (let videoURL = ''https://www.youtube.com/watch?v='' @ videoID
      in case MkdirAll w (TempTranscriptDir cfg) of
           Some e \<Rightarrow>
             (([], Some (Errorf ''failed to create temp dir %s for video %s: %w''
                     [ArgS (TempTranscriptDir cfg), ArgS videoID, ArgW e])), [])
         | None \<Rightarrow>
             (case retryLoop w cfg videoURL 1 [] None [] of
                (Returned, evs) \<Rightarrow> (([], None), evs)
              | (Fallthrough output err, evs) \<Rightarrow>
                  (case err of
                     Some e \<Rightarrow>
                       (([], Some (Errorf
                           (''yt-dlp command for video %s failed after %d attempts: %w'' @
                            [CHR 0x0A] @ ''Last Output: %s'')
                           [ArgS videoID, ArgI (MaxTranscriptRetries cfg), ArgW e, ArgS output])),
                        evs)
                   | None \<Rightarrow>
                       (let (r, evs') = parseTranscript w cfg videoID in (r, evs @ evs')))))"

section \<open>Summarization\<close>

text \<open>
  The condition \<open>len(resp.Candidates) == 0 || len(resp.Candidates[0].Content.Parts) == 0\<close>
  reads the parts through the pointer \<open>Content\<close> of the first candidate: on a nil pointer
  the function panics, after the request has been made.
\<close>

definition summarizeTranscriptWithGemini ::
  "GenerativeModel \<Rightarrow> string \<Rightarrow> AppConfig
     \<Rightarrow> (panic + (string \<times> error option)) \<times> event list" where
  "summarizeTranscriptWithGemini geminiModel transcript cfg =
     (if transcript = []
      then (Inr (''Transcript was empty, no summary generated.'', None), [])
      else
       (let prompt = (summaryPromptFormat, [ArgI (SummaryWordCount cfg), ArgS transcript]);
            evs = [GenerateContent prompt (LLMTimeout cfg)]
        in case geminiModel prompt of
             Inl err \<Rightarrow>
               (Inr ([], Some (Errorf ''gemini GenerateContent failed: %w'' [ArgW err])), evs)
           | Inr resp \<Rightarrow>
               (case Candidates resp of
                  [] \<Rightarrow> (Inr ([], Some (Errorf ''gemini returned no content candidates'' [])), evs)
                | candidate # _ \<Rightarrow>
                    (case Content candidate of
                       None \<Rightarrow> (Inl NilPointerDereference, evs)
                     | Some [] \<Rightarrow>
                         (Inr ([], Some (Errorf ''gemini returned no content candidates'' [])), evs)
                     | Some (TextPart summaryPart # _) \<Rightarrow>
                         (Inr (TrimSpace summaryPart, None), evs)
                     | Some (OtherPart ty # _) \<Rightarrow>
                         (Inr ([], Some (Errorf ''gemini returned unexpected content part type: %T''
                                  [ArgS ty])), evs)))))"

section \<open>The worker\<close>

text \<open>
  The body of the goroutine that main starts for each video, up to the value it sends on
  resultsChannel. Both sends (the early one after a transcript error and the one at the
  end of the body) are returns of this function with \<open>Inr\<close>. A panic of the summarizer
  leaves the body before any send: that is \<open>Inl\<close>.
\<close>

definition worker ::
  "World \<Rightarrow> AppConfig \<Rightarrow> GenerativeModel option \<Rightarrow> VideoDetails
     \<Rightarrow> (panic + ProcessingResult) \<times> event list" where
  "worker w currentCfg currentGeminiClient v =
     (let currentProcessingResult = \<lparr> VideoDetails = v, Summary = [], Err = None \<rparr>;
          ((transcript, transcriptErr), evs) = getVideoTranscript w (ID v) currentCfg
      in if transcriptErr \<noteq> None
         then (Inr (currentProcessingResult \<lparr> Err := transcriptErr \<rparr>), evs)
         else if transcript = [] then
           (Inr (currentProcessingResult
                   \<lparr> Err := Some (Errorf ''no transcript available'' []) \<rparr>), evs)
         else
           (case currentGeminiClient of
              Some geminiModel \<Rightarrow>
                (case summarizeTranscriptWithGemini geminiModel transcript currentCfg of
                   (Inl p, evs') \<Rightarrow> (Inl p, evs @ Summarize transcript # evs')
                 | (Inr (summary, summaryErr), evs') \<Rightarrow>
                     if summaryErr \<noteq> None
                     then (Inr (currentProcessingResult \<lparr> Err := summaryErr \<rparr>),
                           evs @ Summarize transcript # evs')
                     else (Inr (currentProcessingResult \<lparr> Summary := TrimSpace summary \<rparr>),
                           evs @ Summarize transcript # evs'))
            | None \<Rightarrow>
                (if Err currentProcessingResult = None
                 then (Inr (currentProcessingResult
                              \<lparr> Err := Some (Errorf
                                   ''summarization skipped (Gemini client not available)'' []) \<rparr>),
                       evs)
                 else (Inr currentProcessingResult, evs))))"

section \<open>The report\<close>

text \<open>What the report loop of main prints, one value for each print statement.\<close>

datatype printed =
    ResultMissing string string
  | VideoHeader string string
  | SummaryLine int string
  | StatusError error
  | StatusNoSummary
  | Separator

record Report =
  printedOut :: "printed list"
  successfulSummaries :: int
  videosWithErrors :: int

definition reportVideo ::
  "AppConfig \<Rightarrow> (string \<rightharpoonup> ProcessingResult) \<Rightarrow> Report \<Rightarrow> VideoDetails \<Rightarrow> Report" where
  "reportVideo cfg allResults rep video =
     (case allResults (ID video) of
        None \<Rightarrow>
          rep \<lparr> printedOut := printedOut rep @ [ResultMissing (ID video) (Title video), Separator],
                videosWithErrors := videosWithErrors rep + 1 \<rparr>
      | Some result \<Rightarrow>
          (let rep1 = rep \<lparr> printedOut := printedOut rep @
                        [VideoHeader (ID (VideoDetails result)) (Title (VideoDetails result))] \<rparr>;
               rep2 = (if Summary result \<noteq> []
                       then rep1 \<lparr> printedOut := printedOut rep1 @
                                     [SummaryLine (SummaryWordCount cfg) (Summary result)],
                                   successfulSummaries := successfulSummaries rep1 + 1 \<rparr>
                       else rep1);
               rep3 = (case Err result of
                         Some e \<Rightarrow> rep2 \<lparr> printedOut := printedOut rep2 @ [StatusError e],
                                           videosWithErrors := videosWithErrors rep2 + 1 \<rparr>
                       | None \<Rightarrow> (if Summary result = []
                                  then rep2 \<lparr> printedOut := printedOut rep2 @ [StatusNoSummary] \<rparr>
                                  else rep2))
           in rep3 \<lparr> printedOut := printedOut rep3 @ [Separator] \<rparr>))"

definition report ::
  "AppConfig \<Rightarrow> VideoDetails list \<Rightarrow> (string \<rightharpoonup> ProcessingResult) \<Rightarrow> Report" where
  "report cfg videos allResults =
     foldl (reportVideo cfg allResults)
       \<lparr> printedOut = [], successfulSummaries = 0, videosWithErrors = 0 \<rparr> videos"

text \<open>The work item each block of the report is printed for, in the order of the blocks.\<close>

fun listed :: "printed list \<Rightarrow> VideoDetails list" where
  "listed [] = []"
| "listed (ResultMissing i t # ps) = \<lparr> ID = i, Title = t \<rparr> # listed ps"
| "listed (VideoHeader i t # ps) = \<lparr> ID = i, Title = t \<rparr> # listed ps"
| "listed (_ # ps) = listed ps"

section \<open>Observations on a run of the Acquirer and of a worker\<close>

text \<open>The URL that getVideoTranscript hands to yt-dlp for a video.\<close>

definition watchURL :: "string \<Rightarrow> string" where
  "watchURL videoID = ''https://www.youtube.com/watch?v='' @ videoID"

text \<open>
  An attempt fails transiently when the command exits with an error and its output does
  not carry the no-subtitles signal.
\<close>

definition transientFailure :: "World \<Rightarrow> string \<Rightarrow> int \<Rightarrow> bool" where
  "transientFailure w videoURL attempt =
     (snd (CombinedOutput w videoURL attempt) \<noteq> None \<and>
      \<not> noSubtitles (fst (CombinedOutput w videoURL attempt)))"

text \<open>What one transiently failing attempt adds to the events: the run, and the sleep unless it was the last attempt.\<close>

definition attemptEvents :: "AppConfig \<Rightarrow> string \<Rightarrow> int \<Rightarrow> event list" where
  "attemptEvents cfg videoURL attempt =
     RunYtDlp videoURL attempt #
       (if attempt < MaxTranscriptRetries cfg then [Sleep (TranscriptRetryDelay cfg)] else [])"

text \<open>The number of yt-dlp runs among the events.\<close>

fun ytdlpRuns :: "event list \<Rightarrow> nat" where
  "ytdlpRuns [] = 0"
| "ytdlpRuns (RunYtDlp u a # evs) = Suc (ytdlpRuns evs)"
| "ytdlpRuns (_ # evs) = ytdlpRuns evs"

text \<open>The transcripts that summarizeTranscriptWithGemini was called on, in order.\<close>

fun summarizeCalls :: "event list \<Rightarrow> string list" where
  "summarizeCalls [] = []"
| "summarizeCalls (Summarize transcript # evs) = transcript # summarizeCalls evs"
| "summarizeCalls (_ # evs) = summarizeCalls evs"

text \<open>The two patterns that getVideoTranscript searches for the subtitle file.\<close>

definition firstPattern :: "World \<Rightarrow> AppConfig \<Rightarrow> string \<Rightarrow> string" where
  "firstPattern w cfg videoID = Join w (TempTranscriptDir cfg) (videoID @ ''.*.vtt'')"

definition fallbackPattern :: "World \<Rightarrow> AppConfig \<Rightarrow> string \<Rightarrow> string" where
  "fallbackPattern w cfg videoID = Join w (TempTranscriptDir cfg) (videoID @ ''.vtt'')"

text \<open>No subtitle file is found: both searches come back empty (the first without error).\<close>

definition noArtifact :: "World \<Rightarrow> AppConfig \<Rightarrow> string \<Rightarrow> bool" where
  "noArtifact w cfg videoID =
     (Glob w (firstPattern w cfg videoID) = ([], None) \<and>
      fst (Glob w (fallbackPattern w cfg videoID)) = [])"

text \<open>A subtitle file is found and parsed, and its text is empty once trimmed.\<close>

definition emptyContent :: "World \<Rightarrow> AppConfig \<Rightarrow> string \<Rightarrow> bool" where
  "emptyContent w cfg videoID =
     (snd (Glob w (firstPattern w cfg videoID)) = None \<and>
      (case (if fst (Glob w (firstPattern w cfg videoID)) = []
             then fst (Glob w (fallbackPattern w cfg videoID))
             else fst (Glob w (firstPattern w cfg videoID))) of
         [] \<Rightarrow> False
       | vttFilePath # _ \<Rightarrow>
           (case OpenFile w vttFilePath of
              Inl _ \<Rightarrow> False
            | Inr subs \<Rightarrow> TrimSpace (buildTranscript subs) = [])))"

text \<open>The two values a worker gets back: from the Acquirer and from the Summarizer.\<close>

definition acquire :: "World \<Rightarrow> AppConfig \<Rightarrow> VideoDetails \<Rightarrow> string \<times> error option" where
  "acquire w cfg v = fst (getVideoTranscript w (ID v) cfg)"

definition summarize ::
  "GenerativeModel \<Rightarrow> AppConfig \<Rightarrow> string \<Rightarrow> panic + (string \<times> error option)" where
  "summarize geminiModel cfg transcript =
     fst (summarizeTranscriptWithGemini geminiModel transcript cfg)"

section \<open>Concrete inputs\<close>

text \<open>An environment with both keys set, and the configuration that initializeAppConfig builds in it.\<close>

definition exampleEnv :: "string \<Rightarrow> string" where
  "exampleEnv name = (if name = envYoutubeAPIKey \<or> name = envGeminiAPIKey then ''key'' else [])"

definition exampleCfg :: AppConfig where
  "exampleCfg = \<lparr> YoutubeAPIKey = ''key'', GeminiAPIKey = ''key'',
      PlaylistID = defaultPlaylistID, GeminiModel = defaultGeminiModel,
      TempTranscriptDir = defaultTempTranscriptDir,
      MaxTranscriptRetries = defaultMaxTranscriptRetries,
      TranscriptRetryDelay = defaultTranscriptRetryDelay,
      LLMTimeout = defaultLLMTimeout,
      ConcurrencyLimit = defaultConcurrencyLimit,
      SummaryWordCount = defaultSummaryWordCount \<rparr>"

text \<open>
  A world in which the directory can be made, yt-dlp answers by attempt number, every
  search finds the given files and every file parses to one line with the given text.
\<close>

definition exampleWorld :: "(int \<Rightarrow> string \<times> error option) \<Rightarrow> string list \<Rightarrow> string \<Rightarrow> World" where
  "exampleWorld answers files text =
     \<lparr> MkdirAll = (\<lambda>dir. None),
       Join = (\<lambda>dir name. dir @ ''/'' @ name),
       CombinedOutput = (\<lambda>videoURL. answers),
       Glob = (\<lambda>pattern. (files, None)),
       OpenFile = (\<lambda>path. Inr (Subtitles [Item [Line [LineItem text]]])) \<rparr>"

definition failingRun :: "int \<Rightarrow> string \<times> error option" where
  "failingRun attempt = (''network down'', Some (External ''exit status 1''))"

definition succeedingRun :: "int \<Rightarrow> string \<times> error option" where
  "succeedingRun attempt = (''done'', None)"

definition secondTry :: "int \<Rightarrow> string \<times> error option" where
  "secondTry attempt =
     (if attempt = 1 then (''timed out'', Some (External ''exit status 1'')) else (''done'', None))"

definition noSubtitlesRun :: "int \<Rightarrow> string \<times> error option" where
  "noSubtitlesRun attempt = (''ERROR: no subtitles'', Some (External ''exit status 1''))"

definition textModel :: "string \<Rightarrow> GenerativeModel" where
  "textModel answer prompt = Inr (GenerateContentResponse [Candidate (Some [TextPart answer])])"

text \<open>A model whose answer has one candidate without content.\<close>

definition contentlessModel :: GenerativeModel where
  "contentlessModel prompt = Inr (GenerateContentResponse [Candidate None])"

definition failingModel :: GenerativeModel where
  "failingModel prompt = Inl (External ''context deadline exceeded'')"

definition exampleVideo :: VideoDetails where
  "exampleVideo = \<lparr> ID = ''abc'', Title = ''A video'' \<rparr>"

section \<open>The coordinator: dispatch, workers, collection\<close>

text \<open>
  The concurrent part of main as an interleaving of atomic steps. A worker goroutine goes
  through four phases: \<open>Running\<close> from its start (it runs getVideoTranscript and the
  summarizer) until it sends its result on resultsChannel, \<open>Sent\<close> after the send,
  \<open>Released\<close> after the deferred receive from the semaphore channel, \<open>Finished\<close> after the
  deferred \<open>wg.Done()\<close>. Deferred calls run last-registered first, so the release precedes
  \<open>wg.Done()\<close>, and they run on both returns of the body. They also run when the body
  panics: the worker is then \<open>Panicking\<close> (nothing sent, the slot still held) and
  \<open>Unwinding\<close> after the release; once \<open>wg.Done()\<close> has run as well, the panic ends the
  process. The end of the process is one step with that last deferred call: no other
  goroutine is taken to run between the two.
\<close>

datatype phase = Running | Sent | Released | Finished | Panicking | Unwinding

text \<open>
  Where the main goroutine stands: in the dispatch loop, in the collection loop over
  resultsChannel, at the report, returned early because the playlist is empty, or
  panicked in \<open>make\<close> on a negative channel size; \<open>Crashed\<close> when the panic of a worker
  has ended the process.
\<close>

datatype mainpc = Dispatching | Collecting | Reporting | NoVideos | Panicked | Crashed

record Coordinator =
  videos :: "VideoDetails list"
  pending :: "VideoDetails list"
  workers :: "(VideoDetails \<times> phase) list"
  semaphore :: nat
  resultsChannel :: "ProcessingResult list"
  closed :: bool
  wg :: nat
  allResults :: "string \<rightharpoonup> ProcessingResult"
  pc :: mainpc

text \<open>
  The state after main has made its channels: \<open>pending\<close> holds the videos the dispatch loop
  has not reached, \<open>semaphore\<close> counts the values in the semaphore channel (capacity
  ConcurrencyLimit), \<open>resultsChannel\<close> is the buffer of that channel (capacity
  \<open>len(videos)\<close>), \<open>wg\<close> the counter of the WaitGroup.
\<close>

definition init :: "AppConfig \<Rightarrow> VideoDetails list \<Rightarrow> Coordinator" where
  "init cfg vs =
     \<lparr> videos = vs, pending = vs, workers = [], semaphore = 0, resultsChannel = [],
       closed = False, wg = 0, allResults = Map.empty,
       pc = (if vs = [] then NoVideos
             else if ConcurrencyLimit cfg < 0 then Panicked
             else Dispatching) \<rparr>"

text \<open>
  The atomic steps. \<open>Dispatch\<close>: one round of the dispatch loop, \<open>wg.Add(1)\<close>, the send on the
  semaphore channel (possible only below its capacity) and the start of the goroutine.
  \<open>ExitLoop\<close>: the loop ends and main starts the goroutine that waits and closes.
  \<open>Work i\<close>: worker \<open>i\<close> finishes its body and sends its result, or panics in it.
  \<open>Release i\<close>: its deferred receive from the semaphore channel. \<open>Done i\<close>: its deferred
  \<open>wg.Done()\<close>, after which a panicking worker ends the process. \<open>Close\<close>: \<open>wg.Wait()\<close>
  returns (the counter is zero) and resultsChannel is closed. \<open>Collect\<close>: main receives
  one result and stores it under its video ID. \<open>EndCollect\<close>: the range loop ends, the
  channel being closed and drained. Nothing happens in a process that has ended.
\<close>

datatype action =
    Dispatch | ExitLoop | Work nat | Release nat | Done nat | Close | Collect | EndCollect

definition setPhase :: "nat \<Rightarrow> phase \<Rightarrow> (VideoDetails \<times> phase) list \<Rightarrow> (VideoDetails \<times> phase) list" where
  "setPhase i p ws = ws[i := (fst (ws ! i), p)]"

definition inPhase :: "Coordinator \<Rightarrow> nat \<Rightarrow> phase \<Rightarrow> bool" where
  "inPhase s i p = (i < length (workers s) \<and> snd (workers s ! i) = p)"

fun step ::
  "World \<Rightarrow> AppConfig \<Rightarrow> GenerativeModel option \<Rightarrow> action \<Rightarrow> Coordinator \<Rightarrow> Coordinator option" where
  "step w cfg client Dispatch s =
     (case pending s of
        [] \<Rightarrow> None
      | video # rest \<Rightarrow>
          if pc s = Dispatching \<and> int (semaphore s) < ConcurrencyLimit cfg
          then Some (s \<lparr> pending := rest, wg := wg s + 1, semaphore := semaphore s + 1,
                         workers := workers s @ [(video, Running)] \<rparr>)
          else None)"
| "step w cfg client ExitLoop s =
     (if pc s = Dispatching \<and> pending s = [] then Some (s \<lparr> pc := Collecting \<rparr>) else None)"
| "step w cfg client (Work i) s =
     (if pc s \<noteq> Crashed \<and> inPhase s i Running
      then (case fst (worker w cfg client (fst (workers s ! i))) of
              Inl p \<Rightarrow> Some (s \<lparr> workers := setPhase i Panicking (workers s) \<rparr>)
            | Inr result \<Rightarrow>
                if length (resultsChannel s) < length (videos s)
                then Some (s \<lparr> workers := setPhase i Sent (workers s),
                               resultsChannel := resultsChannel s @ [result] \<rparr>)
                else None)
      else None)"
| "step w cfg client (Release i) s =
     (if pc s \<noteq> Crashed \<and> 0 < semaphore s
      then if inPhase s i Sent
           then Some (s \<lparr> workers := setPhase i Released (workers s),
                          semaphore := semaphore s - 1 \<rparr>)
           else if inPhase s i Panicking
           then Some (s \<lparr> workers := setPhase i Unwinding (workers s),
                          semaphore := semaphore s - 1 \<rparr>)
           else None
      else None)"
| "step w cfg client (Done i) s =
     (if pc s \<noteq> Crashed \<and> 0 < wg s
      then if inPhase s i Released
           then Some (s \<lparr> workers := setPhase i Finished (workers s), wg := wg s - 1 \<rparr>)
           else if inPhase s i Unwinding
           then Some (s \<lparr> wg := wg s - 1, pc := Crashed \<rparr>)
           else None
      else None)"
| "step w cfg client Close s =
     (if (pc s = Collecting \<or> pc s = Reporting) \<and> wg s = 0 \<and> \<not> closed s
      then Some (s \<lparr> closed := True \<rparr>) else None)"
| "step w cfg client Collect s =
     (case resultsChannel s of
        [] \<Rightarrow> None
      | result # rest \<Rightarrow>
          if pc s = Collecting
          then Some (s \<lparr> allResults := (allResults s)(ID (VideoDetails result) \<mapsto> result),
                         resultsChannel := rest \<rparr>)
          else None)"
| "step w cfg client EndCollect s =
     (if pc s = Collecting \<and> closed s \<and> resultsChannel s = []
      then Some (s \<lparr> pc := Reporting \<rparr>) else None)"

text \<open>A schedule is the order in which the steps happen; a step that cannot happen ends the run with \<open>None\<close>.\<close>

fun run ::
  "World \<Rightarrow> AppConfig \<Rightarrow> GenerativeModel option \<Rightarrow> action list \<Rightarrow> Coordinator
     \<Rightarrow> Coordinator option" where
  "run w cfg client [] s = Some s"
| "run w cfg client (a # as) s =
     (case step w cfg client a s of None \<Rightarrow> None | Some s' \<Rightarrow> run w cfg client as s')"

text \<open>The report that main prints once the collection loop has ended.\<close>

definition finalReport :: "AppConfig \<Rightarrow> Coordinator \<Rightarrow> Report" where
  "finalReport cfg s = report cfg (videos s) (allResults s)"

text \<open>The number of workers in their body, and of those that hold a slot of the semaphore.\<close>

definition executing :: "Coordinator \<Rightarrow> nat" where
  "executing s = length (filter (\<lambda>p. p = Running) (map snd (workers s)))"

definition holdsSlot :: "phase \<Rightarrow> bool" where
  "holdsSlot p = (p = Running \<or> p = Sent \<or> p = Panicking)"

definition holding :: "Coordinator \<Rightarrow> nat" where
  "holding s = length (filter holdsSlot (map snd (workers s)))"

definition unfinished :: "Coordinator \<Rightarrow> nat" where
  "unfinished s = length (filter (\<lambda>p. p \<noteq> Finished) (map snd (workers s)))"

text \<open>How often worker \<open>i\<close> releases its slot in a schedule.\<close>

definition releases :: "nat \<Rightarrow> action list \<Rightarrow> nat" where
  "releases i schedule = count_list schedule (Release i)"

text \<open>
  The result that the worker of a video sends; for a worker that panics, which sends
  nothing, the result as its body first made it.
\<close>

definition resultOf :: "World \<Rightarrow> AppConfig \<Rightarrow> GenerativeModel option \<Rightarrow> VideoDetails \<Rightarrow> ProcessingResult" where
  "resultOf w cfg client v =
     (case fst (worker w cfg client v) of
        Inr result \<Rightarrow> result
      | Inl p \<Rightarrow> \<lparr> VideoDetails = v, Summary = [], Err = None \<rparr>)"

text \<open>The body of the worker of a video panics.\<close>

definition panics :: "World \<Rightarrow> AppConfig \<Rightarrow> GenerativeModel option \<Rightarrow> VideoDetails \<Rightarrow> bool" where
  "panics w cfg client v = isl (fst (worker w cfg client v))"

text \<open>Three videos, a limit of two slots, and two schedules that finish in different orders.\<close>

definition threeVideos :: "VideoDetails list" where
  "threeVideos = [\<lparr> ID = ''a'', Title = ''First'' \<rparr>, \<lparr> ID = ''b'', Title = ''Second'' \<rparr>,
                  \<lparr> ID = ''c'', Title = ''Third'' \<rparr>]"

definition twoSlots :: AppConfig where
  "twoSlots = exampleCfg \<lparr> ConcurrencyLimit := 2 \<rparr>"

definition forwardSchedule :: "action list" where
  "forwardSchedule =
     [Dispatch, Dispatch, Work 0, Release 0, Dispatch, Done 0, Work 1, Release 1, Done 1,
      ExitLoop, Collect, Work 2, Collect, Release 2, Collect, Done 2, Close, EndCollect]"

definition reverseSchedule :: "action list" where
  "reverseSchedule =
     [Dispatch, Dispatch, Work 1, Release 1, Dispatch, ExitLoop, Work 2, Work 0, Done 1,
      Collect, Release 2, Release 0, Collect, Done 0, Done 2, Close, Collect, EndCollect]"

section \<open>Invariants of the coordinator\<close>

text \<open>
  The workers started so far, followed by the videos still pending, are the playlist; the
  loops after the dispatch loop start with nothing pending.
\<close>

definition structInv :: "Coordinator \<Rightarrow> bool" where
  "structInv s =
     (map fst (workers s) @ pending s = videos s \<and>
      (pc s = Collecting \<or> pc s = Reporting \<longrightarrow> pending s = []))"

text \<open>The semaphore channel holds one value for each worker that holds a slot, and never more than its capacity.\<close>

definition slotInv :: "AppConfig \<Rightarrow> Coordinator \<Rightarrow> bool" where
  "slotInv cfg s = (holding s = semaphore s \<and> int (semaphore s) \<le> ConcurrencyLimit cfg)"

text \<open>
  While the process lives the WaitGroup counts the workers that have not finished; resultsChannel is closed only
  after the dispatch loop, at counter zero; the report starts only on a closed and
  drained channel.
\<close>

definition wgInv :: "Coordinator \<Rightarrow> bool" where
  "wgInv s =
     ((pc s \<noteq> Crashed \<longrightarrow> unfinished s = wg s) \<and>
      (closed s \<longrightarrow> wg s = 0 \<and> (pc s = Collecting \<or> pc s = Reporting)) \<and>
      (pc s = Reporting \<longrightarrow> closed s \<and> resultsChannel s = []))"

text \<open>The phases of a worker whose body has returned and sent its result.\<close>

definition hasSent :: "phase \<Rightarrow> bool" where
  "hasSent p = (p = Sent \<or> p = Released \<or> p = Finished)"

text \<open>Worker \<open>i\<close> has sent, and what it sent is \<open>r\<close>.\<close>

definition sentBy :: "World \<Rightarrow> AppConfig \<Rightarrow> GenerativeModel option \<Rightarrow> Coordinator \<Rightarrow> nat \<Rightarrow> ProcessingResult \<Rightarrow> bool" where
  "sentBy w cfg client s i r =
     (i < length (workers s) \<and> hasSent (snd (workers s ! i)) \<and>
      fst (worker w cfg client (fst (workers s ! i))) = Inr r)"

text \<open>A worker that has sent did not panic.\<close>

definition sentInv :: "World \<Rightarrow> AppConfig \<Rightarrow> GenerativeModel option \<Rightarrow> Coordinator \<Rightarrow> bool" where
  "sentInv w cfg client s =
     (\<forall>i<length (workers s). hasSent (snd (workers s ! i)) \<longrightarrow>
        \<not> panics w cfg client (fst (workers s ! i)))"

text \<open>A result is stored under the ID of its own video.\<close>

definition keyInv :: "Coordinator \<Rightarrow> bool" where
  "keyInv s = (\<forall>k r. allResults s k = Some r \<longrightarrow> ID (VideoDetails r) = k)"

text \<open>Whatever is in the channel or stored was sent by a worker.\<close>

definition chanInv :: "World \<Rightarrow> AppConfig \<Rightarrow> GenerativeModel option \<Rightarrow> Coordinator \<Rightarrow> bool" where
  "chanInv w cfg client s =
     ((\<forall>r \<in> set (resultsChannel s). \<exists>i. sentBy w cfg client s i r) \<and>
      (\<forall>k r. allResults s k = Some r \<longrightarrow> (\<exists>i. sentBy w cfg client s i r)))"

text \<open>Whatever a worker has sent is in the channel or stored.\<close>

definition deliveredInv :: "World \<Rightarrow> AppConfig \<Rightarrow> GenerativeModel option \<Rightarrow> Coordinator \<Rightarrow> bool" where
  "deliveredInv w cfg client s =
     (\<forall>i<length (workers s). hasSent (snd (workers s ! i)) \<longrightarrow>
        resultOf w cfg client (fst (workers s ! i)) \<in> set (resultsChannel s) \<or>
        allResults s (ID (fst (workers s ! i))) = Some (resultOf w cfg client (fst (workers s ! i))))"

text \<open>The invariants of the coordinator together; the last needs the video IDs to be distinct.\<close>

definition coordInv :: "World \<Rightarrow> AppConfig \<Rightarrow> GenerativeModel option \<Rightarrow> Coordinator \<Rightarrow> bool" where
  "coordInv w cfg client s =
     (structInv s \<and> wgInv s \<and> keyInv s \<and> chanInv w cfg client s \<and> sentInv w cfg client s \<and>
      (distinct (map ID (videos s)) \<longrightarrow> deliveredInv w cfg client s))"

text \<open>Worker \<open>i\<close> has given its slot back.\<close>

definition hasReleased :: "Coordinator \<Rightarrow> nat \<Rightarrow> bool" where
  "hasReleased s i =
     (i < length (workers s) \<and>
      (snd (workers s ! i) = Released \<or> snd (workers s ! i) = Finished \<or>
       snd (workers s ! i) = Unwinding))"

text \<open>
  A world in which yt-dlp fails on video \<open>b\<close> at every attempt and succeeds on the others,
  and the runs of the two schedules in it; in \<open>fullRun\<close> both slots are taken.
\<close>

definition mixedWorld :: World where
  "mixedWorld =
     (exampleWorld succeedingRun [''found.en.vtt''] ''hello world'')
       \<lparr> CombinedOutput :=
           (\<lambda>videoURL. if videoURL = watchURL ''b'' then failingRun else succeedingRun) \<rparr>"

definition reverseRun :: "Coordinator option" where
  "reverseRun = run mixedWorld twoSlots (Some (textModel ''sum'')) reverseSchedule
                  (init twoSlots threeVideos)"

definition forwardRun :: "Coordinator option" where
  "forwardRun = run mixedWorld twoSlots (Some (textModel ''sum'')) forwardSchedule
                  (init twoSlots threeVideos)"

definition fullRun :: "Coordinator option" where
  "fullRun = run mixedWorld twoSlots (Some (textModel ''sum'')) [Dispatch, Dispatch]
               (init twoSlots threeVideos)"

text \<open>
  A playlist in which two different entries carry the same video ID, and two runs on it
  that differ only in which worker sends first.
\<close>

definition twiceListed :: "VideoDetails list" where
  "twiceListed = [\<lparr> ID = ''a'', Title = ''First copy'' \<rparr>, \<lparr> ID = ''a'', Title = ''Second copy'' \<rparr>]"

definition firstSendsFirst :: "action list" where
  "firstSendsFirst =
     [Dispatch, Dispatch, Work 0, Work 1, Release 0, Release 1, Done 0, Done 1,
      ExitLoop, Close, Collect, Collect, EndCollect]"

definition secondSendsFirst :: "action list" where
  "secondSendsFirst =
     [Dispatch, Dispatch, Work 1, Work 0, Release 0, Release 1, Done 0, Done 1,
      ExitLoop, Close, Collect, Collect, EndCollect]"

definition twiceListedRunA :: "Coordinator option" where
  "twiceListedRunA = run mixedWorld exampleCfg (Some (textModel ''sum'')) firstSendsFirst
                       (init exampleCfg twiceListed)"

definition twiceListedRunB :: "Coordinator option" where
  "twiceListedRunB = run mixedWorld exampleCfg (Some (textModel ''sum'')) secondSendsFirst
                       (init exampleCfg twiceListed)"

section \<open>Observations on the report and on complete runs\<close>

text \<open>What each counter of the report counts: a stored summary that is not empty; a missing result or a stored error.\<close>

definition hasSummary :: "(string \<rightharpoonup> ProcessingResult) \<Rightarrow> VideoDetails \<Rightarrow> bool" where
  "hasSummary m v = (case m (ID v) of None \<Rightarrow> False | Some r \<Rightarrow> Summary r \<noteq> [])"

definition countedAsError :: "(string \<rightharpoonup> ProcessingResult) \<Rightarrow> VideoDetails \<Rightarrow> bool" where
  "countedAsError m v = (case m (ID v) of None \<Rightarrow> True | Some r \<Rightarrow> Err r \<noteq> None)"

text \<open>
  A run on one video whose transcript is found and for which the model answers with a
  single blank.
\<close>

definition blankSchedule :: "action list" where
  "blankSchedule = [Dispatch, Work 0, Release 0, Done 0, ExitLoop, Close, Collect, EndCollect]"

definition blankRun :: "Coordinator option" where
  "blankRun = run (exampleWorld succeedingRun [''abc.en.vtt''] ''hello world'') exampleCfg
                (Some (textModel '' '')) blankSchedule (init exampleCfg [exampleVideo])"

text \<open>
  The schedule in which each worker is started and runs to its end before the next one
  starts, and the state it leaves after \<open>k\<close> workers.
\<close>

definition sequentialSchedule :: "nat \<Rightarrow> action list" where
  "sequentialSchedule n =
     concat (map (\<lambda>i. [Dispatch, Work i, Release i, Done i]) [0..<n]) @
     [ExitLoop, Close] @ replicate n Collect @ [EndCollect]"

definition afterSequential ::
  "World \<Rightarrow> AppConfig \<Rightarrow> GenerativeModel option \<Rightarrow> VideoDetails list \<Rightarrow> nat \<Rightarrow> Coordinator" where
  "afterSequential w cfg client vs k =
     \<lparr> videos = vs, pending = drop k vs,
       workers = map (\<lambda>v. (v, Finished)) (take k vs),
       semaphore = 0,
       resultsChannel = map (resultOf w cfg client) (take k vs),
       closed = False, wg = 0, allResults = Map.empty, pc = Dispatching \<rparr>"

text \<open>
  A run on one video whose transcript is found and for which the model answers with a
  candidate that has no content.
\<close>

definition contentlessRun :: "Coordinator option" where
  "contentlessRun = run (exampleWorld succeedingRun [''abc.en.vtt''] ''hello world'') exampleCfg
                      (Some contentlessModel) [Dispatch, Work 0, Release 0, Done 0]
                      (init exampleCfg [exampleVideo])"

section \<open>The configuration\<close>

text \<open>Every configuration that initializeAppConfig builds has 3 attempts and 5 slots.\<close>

lemma initializeAppConfig_defaults:
  assumes "initializeAppConfig Getenv = Inr cfg"
  shows "MaxTranscriptRetries cfg = 3" and "ConcurrencyLimit cfg = 5"
  using assms
  by (auto simp add: initializeAppConfig_def Let_def defaultMaxTranscriptRetries_def
        defaultConcurrencyLimit_def split: if_splits)

lemma initializeAppConfig_exampleEnv: "initializeAppConfig exampleEnv = Inr exampleCfg"
  by (simp add: initializeAppConfig_def exampleEnv_def exampleCfg_def getEnvWithDefault_def
        envYoutubeAPIKey_def envGeminiAPIKey_def envPlaylistID_def envGeminiModel_def)

section \<open>The retry loop\<close>

lemma ytdlpRuns_append: "ytdlpRuns (xs @ ys) = ytdlpRuns xs + ytdlpRuns ys"
  by (induction xs rule: ytdlpRuns.induct) auto

lemma summarizeCalls_append: "summarizeCalls (xs @ ys) = summarizeCalls xs @ summarizeCalls ys"
  by (induction xs rule: summarizeCalls.induct) auto

lemma exampleCfg_simps [simp]:
  "MaxTranscriptRetries exampleCfg = 3"
  "TempTranscriptDir exampleCfg = ''./transcripts_temp''"
  "ConcurrencyLimit exampleCfg = 5"
  by (simp_all add: exampleCfg_def defaultMaxTranscriptRetries_def defaultTempTranscriptDir_def
        defaultConcurrencyLimit_def)

lemma exampleWorld_simps [simp]:
  "MkdirAll (exampleWorld answers files text) dir = None"
  "CombinedOutput (exampleWorld answers files text) videoURL = answers"
  "Glob (exampleWorld answers files text) pattern = (files, None)"
  "OpenFile (exampleWorld answers files text) path = Inr (Subtitles [Item [Line [LineItem text]]])"
  by (simp_all add: exampleWorld_def)

text \<open>One round of the loop, for each way an attempt can end.\<close>

lemma retryLoop_absent:
  assumes "attempt \<le> MaxTranscriptRetries cfg"
    and "noSubtitles (fst (CombinedOutput w videoURL attempt))"
  shows "retryLoop w cfg videoURL attempt out err evs = (Returned, evs @ [RunYtDlp videoURL attempt])"
  by (subst retryLoop.simps) (use assms in \<open>simp add: Let_def case_prod_beta\<close>)

lemma retryLoop_transient_step:
  assumes "attempt \<le> MaxTranscriptRetries cfg"
    and "transientFailure w videoURL attempt"
  shows "retryLoop w cfg videoURL attempt out err evs =
         retryLoop w cfg videoURL (attempt + 1) (fst (CombinedOutput w videoURL attempt))
           (snd (CombinedOutput w videoURL attempt)) (evs @ attemptEvents cfg videoURL attempt)"
  by (subst retryLoop.simps)
     (use assms in \<open>auto simp add: Let_def transientFailure_def attemptEvents_def case_prod_beta\<close>)

lemma retryLoop_done:
  assumes "\<not> attempt \<le> MaxTranscriptRetries cfg"
  shows "retryLoop w cfg videoURL attempt out err evs = (Fallthrough out err, evs)"
  by (subst retryLoop.simps) (use assms in simp)

lemma retryLoop_success:
  assumes "attempt \<le> MaxTranscriptRetries cfg"
    and "snd (CombinedOutput w videoURL attempt) = None"
    and "\<not> noSubtitles (fst (CombinedOutput w videoURL attempt))"
  shows "retryLoop w cfg videoURL attempt out err evs =
         (Fallthrough (fst (CombinedOutput w videoURL attempt)) None, evs @ [RunYtDlp videoURL attempt])"
  by (subst retryLoop.simps) (use assms in \<open>simp add: Let_def case_prod_beta\<close>)

text \<open>When every remaining attempt fails transiently, the loop runs them all.\<close>

lemma retryLoop_all_transient:
  assumes "\<forall>a. attempt \<le> a \<and> a \<le> MaxTranscriptRetries cfg \<longrightarrow> transientFailure w videoURL a"
    and "attempt \<le> MaxTranscriptRetries cfg"
  shows "retryLoop w cfg videoURL attempt out err evs =
         (Fallthrough (fst (CombinedOutput w videoURL (MaxTranscriptRetries cfg)))
                      (snd (CombinedOutput w videoURL (MaxTranscriptRetries cfg))),
          evs @ concat (map (attemptEvents cfg videoURL) [attempt..MaxTranscriptRetries cfg]))"
  using assms
proof (induction "nat (MaxTranscriptRetries cfg - attempt)" arbitrary: attempt out err evs)
  case 0
  then have eq: "attempt = MaxTranscriptRetries cfg" by simp
  have t: "transientFailure w videoURL attempt" using 0 by simp
  show ?case
    unfolding retryLoop_transient_step [OF "0.prems"(2) t]
    by (simp add: eq retryLoop_done)
next
  case (Suc n)
  have t: "transientFailure w videoURL attempt" using Suc.prems by simp
  have le: "attempt + 1 \<le> MaxTranscriptRetries cfg" using Suc.hyps(2) by simp
  have n: "n = nat (MaxTranscriptRetries cfg - (attempt + 1))" using Suc.hyps(2) by simp
  have all: "\<forall>a. attempt + 1 \<le> a \<and> a \<le> MaxTranscriptRetries cfg \<longrightarrow> transientFailure w videoURL a"
    using Suc.prems(1) by simp
  have up: "[attempt..MaxTranscriptRetries cfg] = attempt # [attempt + 1..MaxTranscriptRetries cfg]"
    using Suc.prems(2) by (simp add: upto_rec1)
  show ?case
    by (simp add: retryLoop_transient_step [OF Suc.prems(2) t] Suc.hyps(1) [OF n all le] up)
qed

lemma ytdlpRuns_attempts:
  "ytdlpRuns (concat (map (attemptEvents cfg videoURL) [i..j])) = nat (j + 1 - i)"
proof (induction "nat (j + 1 - i)" arbitrary: i)
  case 0
  then show ?case by simp
next
  case (Suc n)
  then have le: "i \<le> j" by simp
  have n: "n = nat (j + 1 - (i + 1))" using Suc.hyps(2) by simp
  show ?case using Suc.hyps(1) [OF n] Suc.hyps(2) le
    by (simp add: upto_rec1 attemptEvents_def)
qed

text \<open>When attempt \<open>k\<close> is the first that does not fail transiently and it succeeds, the loop breaks there.\<close>

lemma retryLoop_succeeds_at:
  assumes "\<forall>a. attempt \<le> a \<and> a < k \<longrightarrow> transientFailure w videoURL a"
    and "attempt \<le> k" and "k \<le> MaxTranscriptRetries cfg"
    and "snd (CombinedOutput w videoURL k) = None"
    and "\<not> noSubtitles (fst (CombinedOutput w videoURL k))"
  shows "retryLoop w cfg videoURL attempt out err evs =
         (Fallthrough (fst (CombinedOutput w videoURL k)) None,
          evs @ concat (map (attemptEvents cfg videoURL) [attempt..k - 1]) @ [RunYtDlp videoURL k])"
  using assms(1,2)
proof (induction "nat (k - attempt)" arbitrary: attempt out err evs)
  case 0
  then have eq: "attempt = k" by simp
  show ?case unfolding eq
    by (simp add: retryLoop_success [OF assms(3) assms(4) assms(5)])
next
  case (Suc n)
  have lt: "attempt < k" using Suc.hyps(2) by simp
  have t: "transientFailure w videoURL attempt" using Suc.prems lt by simp
  have le: "attempt \<le> MaxTranscriptRetries cfg" using lt assms(3) by simp
  have n: "n = nat (k - (attempt + 1))" using Suc.hyps(2) by simp
  have all: "\<forall>a. attempt + 1 \<le> a \<and> a < k \<longrightarrow> transientFailure w videoURL a"
    using Suc.prems(1) by simp
  have le': "attempt + 1 \<le> k" using lt by simp
  have up: "[attempt..k - 1] = attempt # [attempt + 1..k - 1]"
    using lt by (simp add: upto_rec1)
  show ?case
    by (simp add: retryLoop_transient_step [OF le t] Suc.hyps(1) [OF n all le'] up)
qed

text \<open>The loop never calls the summarizer.\<close>

lemma summarizeCalls_retryLoop:
  "summarizeCalls (snd (retryLoop w cfg videoURL attempt out err evs)) = summarizeCalls evs"
proof (induction w cfg videoURL attempt out err evs rule: retryLoop.induct)
  case (1 w cfg videoURL attempt out err evs)
  show ?case
  proof (cases "attempt \<le> MaxTranscriptRetries cfg")
    case False
    then show ?thesis by (simp add: retryLoop_done)
  next
    case le: True
    show ?thesis
    proof (cases "noSubtitles (fst (CombinedOutput w videoURL attempt))")
      case True
      then show ?thesis by (simp add: retryLoop_absent [OF le] summarizeCalls_append)
    next
      case ns: False
      show ?thesis
      proof (cases "snd (CombinedOutput w videoURL attempt) = None")
        case True
        then show ?thesis by (simp add: retryLoop_success [OF le _ ns] summarizeCalls_append)
      next
        case False
        then have t: "transientFailure w videoURL attempt"
          using ns by (simp add: transientFailure_def)
        have "summarizeCalls (snd (retryLoop w cfg videoURL (attempt + 1)
                 (fst (CombinedOutput w videoURL attempt)) (snd (CombinedOutput w videoURL attempt))
                 (evs @ attemptEvents cfg videoURL attempt)))
              = summarizeCalls (evs @ attemptEvents cfg videoURL attempt)"
          using "1.IH" [OF le, of "(fst (CombinedOutput w videoURL attempt), snd (CombinedOutput w videoURL attempt))"
                  "fst (CombinedOutput w videoURL attempt)" "snd (CombinedOutput w videoURL attempt)"
                  "evs @ [RunYtDlp videoURL attempt]"] False ns
          by (auto simp add: attemptEvents_def)
        then show ?thesis
          by (simp add: retryLoop_transient_step [OF le t] summarizeCalls_append attemptEvents_def)
      qed
    qed
  qed
qed

section \<open>The Acquirer\<close>

lemma getVideoTranscript_watchURL:
  "getVideoTranscript w videoID cfg =
     (case MkdirAll w (TempTranscriptDir cfg) of
        Some e \<Rightarrow>
          (([], Some (Errorf ''failed to create temp dir %s for video %s: %w''
                  [ArgS (TempTranscriptDir cfg), ArgS videoID, ArgW e])), [])
      | None \<Rightarrow>
          (case retryLoop w cfg (watchURL videoID) 1 [] None [] of
             (Returned, evs) \<Rightarrow> (([], None), evs)
           | (Fallthrough out err, evs) \<Rightarrow>
               (case err of
                  Some e \<Rightarrow>
                    (([], Some (Errorf
                        (''yt-dlp command for video %s failed after %d attempts: %w'' @
                         [CHR 0x0A] @ ''Last Output: %s'')
                        [ArgS videoID, ArgI (MaxTranscriptRetries cfg), ArgW e, ArgS out])),
                     evs)
                | None \<Rightarrow>
                    (fst (parseTranscript w cfg videoID),
                     evs @ snd (parseTranscript w cfg videoID)))))"
  unfolding getVideoTranscript_def watchURL_def Let_def case_prod_beta ..

lemma parseTranscript_absent:
  assumes "noArtifact w cfg videoID \<or> emptyContent w cfg videoID"
  shows "fst (parseTranscript w cfg videoID) = ([], None)"
  using assms
  by (auto simp add: parseTranscript_def noArtifact_def emptyContent_def firstPattern_def
        fallbackPattern_def Let_def case_prod_beta
      split: option.splits list.splits sum.splits if_splits)

lemma summarizeCalls_parseTranscript:
  "summarizeCalls (snd (parseTranscript w cfg videoID)) = []"
  by (simp add: parseTranscript_def Let_def case_prod_beta
      split: option.splits list.splits sum.splits)

lemma summarizeCalls_getVideoTranscript:
  "summarizeCalls (snd (getVideoTranscript w videoID cfg)) = []"
  using summarizeCalls_retryLoop [of w cfg "watchURL videoID" 1 "[]" None "[]"]
  by (auto simp add: getVideoTranscript_watchURL summarizeCalls_append
        summarizeCalls_parseTranscript
      split: option.splits prod.splits loopExit.splits)

text \<open>
  C5. When the first run of yt-dlp carries the no-subtitles signal in its output, whether
  the command exited with success or with an error, getVideoTranscript returns the empty
  transcript with a nil error (Absent) at once: yt-dlp has run exactly once and nothing
  has slept. The first attempt takes place when the temporary directory could be made and
  the retry count is at least 1.
\<close>

theorem absence_signal_first_attempt:
  assumes "MkdirAll w (TempTranscriptDir cfg) = None"
    and "1 \<le> MaxTranscriptRetries cfg"
    and "noSubtitles (fst (CombinedOutput w (watchURL videoID) 1))"
  shows "getVideoTranscript w videoID cfg = (([], None), [RunYtDlp (watchURL videoID) 1])"
  using assms(1) retryLoop_absent [OF assms(2) assms(3)]
  by (simp add: getVideoTranscript_watchURL)

theorem absence_signal_first_attempt_witness:
  "MkdirAll (exampleWorld noSubtitlesRun [] []) (TempTranscriptDir exampleCfg) = None
   \<and> 1 \<le> MaxTranscriptRetries exampleCfg
   \<and> noSubtitles (fst (CombinedOutput (exampleWorld noSubtitlesRun [] []) (watchURL ''abc'') 1))
   \<and> getVideoTranscript (exampleWorld noSubtitlesRun [] []) ''abc'' exampleCfg
       = (([], None), [RunYtDlp (watchURL ''abc'') 1])"
proof -
  let ?w = "exampleWorld noSubtitlesRun [] []"
  have h1: "MkdirAll ?w (TempTranscriptDir exampleCfg) = None" by simp
  have h2: "1 \<le> MaxTranscriptRetries exampleCfg" by simp
  have h3: "noSubtitles (fst (CombinedOutput ?w (watchURL ''abc'') 1))"
    by (simp add: noSubtitles_def noSubtitlesRun_def)
  show ?thesis
    using absence_signal_first_attempt [OF h1 h2 h3] h1 h2 h3 by simp
qed

text \<open>
  C6. When every attempt up to the retry count fails transiently (the command exits with
  an error and never shows the no-subtitles signal), getVideoTranscript runs yt-dlp
  exactly MaxTranscriptRetries times and returns an error that wraps the error and the
  output of the last attempt. The retry count is at least 1, as in every configuration
  that initializeAppConfig builds (3), and the temporary directory could be made.
\<close>

theorem transient_failures_exhaust_retries:
  assumes "MkdirAll w (TempTranscriptDir cfg) = None"
    and "1 \<le> MaxTranscriptRetries cfg"
    and "list_all (transientFailure w (watchURL videoID)) [1..MaxTranscriptRetries cfg]"
  shows "\<exists>lastErr.
           snd (CombinedOutput w (watchURL videoID) (MaxTranscriptRetries cfg)) = Some lastErr
         \<and> fst (getVideoTranscript w videoID cfg) =
             ([], Some (Errorf
                (''yt-dlp command for video %s failed after %d attempts: %w'' @
                 [CHR 0x0A] @ ''Last Output: %s'')
                [ArgS videoID, ArgI (MaxTranscriptRetries cfg), ArgW lastErr,
                 ArgS (fst (CombinedOutput w (watchURL videoID) (MaxTranscriptRetries cfg)))]))
         \<and> ytdlpRuns (snd (getVideoTranscript w videoID cfg)) = nat (MaxTranscriptRetries cfg)"
proof -
  have all: "\<forall>a. 1 \<le> a \<and> a \<le> MaxTranscriptRetries cfg \<longrightarrow>
               transientFailure w (watchURL videoID) a"
    using assms(3) by (simp add: list_all_iff)
  then have "transientFailure w (watchURL videoID) (MaxTranscriptRetries cfg)"
    using assms(2) by simp
  then obtain lastErr
    where e: "snd (CombinedOutput w (watchURL videoID) (MaxTranscriptRetries cfg)) = Some lastErr"
    by (auto simp add: transientFailure_def)
  show ?thesis
    using assms(1) e retryLoop_all_transient [OF all assms(2), of "[]" None "[]"]
    by (simp add: getVideoTranscript_watchURL ytdlpRuns_attempts)
qed

theorem transient_failures_exhaust_retries_witness:
  "MkdirAll (exampleWorld failingRun [] []) (TempTranscriptDir exampleCfg) = None
   \<and> 1 \<le> MaxTranscriptRetries exampleCfg
   \<and> list_all (transientFailure (exampleWorld failingRun [] []) (watchURL ''abc''))
         [1..MaxTranscriptRetries exampleCfg]
   \<and> fst (getVideoTranscript (exampleWorld failingRun [] []) ''abc'' exampleCfg)
       = ([], Some (Errorf
            (''yt-dlp command for video %s failed after %d attempts: %w'' @
             [CHR 0x0A] @ ''Last Output: %s'')
            [ArgS ''abc'', ArgI 3, ArgW (External ''exit status 1''), ArgS ''network down'']))
   \<and> ytdlpRuns (snd (getVideoTranscript (exampleWorld failingRun [] []) ''abc'' exampleCfg)) = 3"
proof -
  let ?w = "exampleWorld failingRun [] []"
  have h1: "MkdirAll ?w (TempTranscriptDir exampleCfg) = None" by simp
  have h2: "1 \<le> MaxTranscriptRetries exampleCfg" by simp
  have h3: "list_all (transientFailure ?w (watchURL ''abc'')) [1..MaxTranscriptRetries exampleCfg]"
    by (simp add: list_all_iff transientFailure_def noSubtitles_def failingRun_def)
  show ?thesis
    using transient_failures_exhaust_retries [OF h1 h2 h3] h1 h2 h3
    by (simp add: failingRun_def)
qed

text \<open>
  C7. When a yt-dlp attempt within the retry count succeeds without the no-subtitles
  signal (the attempts before it having failed transiently), and afterwards either no
  subtitle file is found by the two searches, or the file that is found parses to text
  that is empty once trimmed, getVideoTranscript returns the empty transcript with a nil
  error (Absent), not an error.
\<close>

theorem missing_or_empty_artifact_is_absent:
  assumes "MkdirAll w (TempTranscriptDir cfg) = None"
    and "1 \<le> k" and "k \<le> MaxTranscriptRetries cfg"
    and "list_all (transientFailure w (watchURL videoID)) [1..k - 1]"
    and "snd (CombinedOutput w (watchURL videoID) k) = None"
    and "\<not> noSubtitles (fst (CombinedOutput w (watchURL videoID) k))"
    and "noArtifact w cfg videoID \<or> emptyContent w cfg videoID"
  shows "fst (getVideoTranscript w videoID cfg) = ([], None)"
proof -
  have before: "\<forall>a. 1 \<le> a \<and> a < k \<longrightarrow> transientFailure w (watchURL videoID) a"
    using assms(4) by (simp add: list_all_iff)
  show ?thesis
    using assms(1) parseTranscript_absent [OF assms(7)]
      retryLoop_succeeds_at [OF before assms(2) assms(3) assms(5) assms(6), of "[]" None "[]"]
    by (simp add: getVideoTranscript_watchURL)
qed

theorem missing_or_empty_artifact_is_absent_witness:
  "(list_all (transientFailure (exampleWorld secondTry [] []) (watchURL ''abc'')) [1..2 - 1]
    \<and> snd (CombinedOutput (exampleWorld secondTry [] []) (watchURL ''abc'') 2) = None
    \<and> \<not> noSubtitles (fst (CombinedOutput (exampleWorld secondTry [] []) (watchURL ''abc'') 2))
    \<and> noArtifact (exampleWorld secondTry [] []) exampleCfg ''abc''
    \<and> fst (getVideoTranscript (exampleWorld secondTry [] []) ''abc'' exampleCfg) = ([], None))
   \<and> (emptyContent (exampleWorld secondTry [''abc.en.vtt''] ''  '') exampleCfg ''abc''
    \<and> fst (getVideoTranscript (exampleWorld secondTry [''abc.en.vtt''] ''  '') ''abc'' exampleCfg)
        = ([], None))"
proof -
  let ?w1 = "exampleWorld secondTry [] []"
  let ?w2 = "exampleWorld secondTry [''abc.en.vtt''] ''  ''"
  have k: "(1::int) \<le> 2" "2 \<le> MaxTranscriptRetries exampleCfg" by simp_all
  have m: "MkdirAll ?w1 (TempTranscriptDir exampleCfg) = None"
    "MkdirAll ?w2 (TempTranscriptDir exampleCfg) = None" by simp_all
  have t: "list_all (transientFailure ?w1 (watchURL ''abc'')) [1..2 - 1]"
    "list_all (transientFailure ?w2 (watchURL ''abc'')) [1..2 - 1]"
    by (simp_all add: transientFailure_def secondTry_def noSubtitles_def)
  have s: "snd (CombinedOutput ?w1 (watchURL ''abc'') 2) = None"
    "snd (CombinedOutput ?w2 (watchURL ''abc'') 2) = None"
    by (simp_all add: secondTry_def)
  have n: "\<not> noSubtitles (fst (CombinedOutput ?w1 (watchURL ''abc'') 2))"
    "\<not> noSubtitles (fst (CombinedOutput ?w2 (watchURL ''abc'') 2))"
    by (simp_all add: secondTry_def noSubtitles_def)
  have a1: "noArtifact ?w1 exampleCfg ''abc''"
    by (simp add: noArtifact_def)
  have a2: "emptyContent ?w2 exampleCfg ''abc''"
    by (simp add: emptyContent_def buildTranscript_def writeItem_def writeLine_def
          TrimSpace_def TrimLeft_def TrimRight_def leadingSpace_def trailingSpace_def
          spaceRunes_def)
  show ?thesis
    using a1 a2 t(1) s(1) n(1)
      missing_or_empty_artifact_is_absent [OF m(1) k t(1) s(1) n(1) disjI1 [OF a1]]
      missing_or_empty_artifact_is_absent [OF m(2) k t(2) s(2) n(2) disjI2 [OF a2]]
    by simp
qed

section \<open>The Summarizer and the worker\<close>

lemma summarizeCalls_summarizeTranscriptWithGemini:
  "summarizeCalls (snd (summarizeTranscriptWithGemini geminiModel transcript cfg)) = []"
  by (simp add: summarizeTranscriptWithGemini_def Let_def
      split: sum.splits list.splits option.splits Part.splits)

text \<open>The outcome of a worker, by the branch its body takes.\<close>

lemma worker_result:
  "fst (worker w cfg client v) =
     (if snd (acquire w cfg v) \<noteq> None
      then Inr \<lparr> VideoDetails = v, Summary = [], Err = snd (acquire w cfg v) \<rparr>
      else if fst (acquire w cfg v) = []
      then Inr \<lparr> VideoDetails = v, Summary = [],
                 Err = Some (Errorf ''no transcript available'' []) \<rparr>
      else (case client of
              None \<Rightarrow>
                Inr \<lparr> VideoDetails = v, Summary = [],
                      Err = Some (Errorf ''summarization skipped (Gemini client not available)'' []) \<rparr>
            | Some geminiModel \<Rightarrow>
                (case summarize geminiModel cfg (fst (acquire w cfg v)) of
                   Inl p \<Rightarrow> Inl p
                 | Inr (summary, summaryErr) \<Rightarrow>
                     if summaryErr \<noteq> None
                     then Inr \<lparr> VideoDetails = v, Summary = [], Err = summaryErr \<rparr>
                     else Inr \<lparr> VideoDetails = v, Summary = TrimSpace summary, Err = None \<rparr>)))"
  by (simp add: worker_def acquire_def summarize_def Let_def case_prod_beta
      split: option.splits sum.splits prod.splits)

lemma worker_VideoDetails: "fst (worker w cfg client v) = Inr r \<Longrightarrow> VideoDetails r = v"
  by (auto simp add: worker_result split: option.splits sum.splits prod.splits if_splits)

text \<open>The worker calls the summarizer at most once, and only on a transcript that is not empty.\<close>

lemma worker_summarizeCalls:
  "summarizeCalls (snd (worker w cfg client v)) =
     (if snd (acquire w cfg v) = None \<and> fst (acquire w cfg v) \<noteq> [] \<and> client \<noteq> None
      then [fst (acquire w cfg v)] else [])"
proof -
  have "summarizeCalls (snd (case summarizeTranscriptWithGemini g t cfg of
            (Inl p, evs') \<Rightarrow> (Inl p, evs @ Summarize t # evs')
          | (Inr (summary, summaryErr), evs') \<Rightarrow>
              if summaryErr \<noteq> None then (Inr (f summaryErr), evs @ Summarize t # evs')
              else (Inr (h summary), evs @ Summarize t # evs'))) =
        summarizeCalls evs @ [t]" for g t evs and f :: "error option \<Rightarrow> ProcessingResult"
    and h :: "string \<Rightarrow> ProcessingResult"
    using summarizeCalls_summarizeTranscriptWithGemini [of g t cfg]
    by (auto simp add: summarizeCalls_append split: prod.splits sum.splits)
  then show ?thesis
    by (simp add: worker_def acquire_def Let_def case_prod_beta summarizeCalls_getVideoTranscript
        split: option.splits)
qed

text \<open>
  C4, as stated, fails in two places. Without a Gemini client the error of the result
  is not "summarization skipped" but the longer text of the code. And when the model
  answers with a candidate that has no content, the summarizer panics on the nil
  pointer and the worker yields no result at all, neither a cause nor a summary.
\<close>

theorem worker_step_order_counterexample:
  "fst (worker (exampleWorld succeedingRun [''abc.en.vtt''] ''hello world '') exampleCfg None
         exampleVideo) \<noteq>
     Inr \<lparr> VideoDetails = exampleVideo, Summary = [],
           Err = Some (Errorf ''summarization skipped'' []) \<rparr>
   \<and> summarize contentlessModel exampleCfg ''hello world'' = Inl NilPointerDereference
   \<and> fst (worker (exampleWorld succeedingRun [''abc.en.vtt''] ''hello world '') exampleCfg
         (Some contentlessModel) exampleVideo) = Inl NilPointerDereference"
  by code_simp

text \<open>
  C4, amended. The worker follows the step order of the Item Worker: (1) when
  getVideoTranscript returns an error, the result carries that error; (2) when it
  returns the empty transcript without error, the result carries the error "no
  transcript available"; (3) with a transcript and no Gemini client, the result carries
  the error "summarization skipped (Gemini client not available)"; and when the
  summarizer returns, (4) with an error, the result carries it, (5) otherwise the result
  carries the trimmed summary and no error. In cases (1) to (3) the summarizer is not
  called at all. Nothing is said of a summarizer that panics.
\<close>

theorem worker_step_order:
  "(\<forall>cause. snd (acquire w cfg v) = Some cause \<longrightarrow>
       fst (worker w cfg client v) = Inr \<lparr> VideoDetails = v, Summary = [], Err = Some cause \<rparr>
     \<and> summarizeCalls (snd (worker w cfg client v)) = [])
   \<and> (acquire w cfg v = ([], None) \<longrightarrow>
       fst (worker w cfg client v) =
         Inr \<lparr> VideoDetails = v, Summary = [],
               Err = Some (Errorf ''no transcript available'' []) \<rparr>
     \<and> summarizeCalls (snd (worker w cfg client v)) = [])
   \<and> (snd (acquire w cfg v) = None \<and> fst (acquire w cfg v) \<noteq> [] \<and> client = None \<longrightarrow>
       fst (worker w cfg client v) =
         Inr \<lparr> VideoDetails = v, Summary = [],
               Err = Some (Errorf ''summarization skipped (Gemini client not available)'' []) \<rparr>
     \<and> summarizeCalls (snd (worker w cfg client v)) = [])
   \<and> (\<forall>geminiModel summary cause.
        snd (acquire w cfg v) = None \<and> fst (acquire w cfg v) \<noteq> [] \<and> client = Some geminiModel
        \<and> summarize geminiModel cfg (fst (acquire w cfg v)) = Inr (summary, Some cause) \<longrightarrow>
       fst (worker w cfg client v) = Inr \<lparr> VideoDetails = v, Summary = [], Err = Some cause \<rparr>)
   \<and> (\<forall>geminiModel summary.
        snd (acquire w cfg v) = None \<and> fst (acquire w cfg v) \<noteq> [] \<and> client = Some geminiModel
        \<and> summarize geminiModel cfg (fst (acquire w cfg v)) = Inr (summary, None) \<longrightarrow>
       fst (worker w cfg client v) =
         Inr \<lparr> VideoDetails = v, Summary = TrimSpace summary, Err = None \<rparr>)"
  by (simp add: worker_result worker_summarizeCalls)

theorem worker_step_order_witness:
  "fst (worker (exampleWorld failingRun [] []) exampleCfg None exampleVideo) =
     Inr \<lparr> VideoDetails = exampleVideo, Summary = [],
       Err = Some (Errorf
            (''yt-dlp command for video %s failed after %d attempts: %w'' @
             [CHR 0x0A] @ ''Last Output: %s'')
            [ArgS ''abc'', ArgI 3, ArgW (External ''exit status 1''), ArgS ''network down'']) \<rparr>
   \<and> fst (worker (exampleWorld succeedingRun [] []) exampleCfg (Some (textModel ''unused''))
          exampleVideo) =
     Inr \<lparr> VideoDetails = exampleVideo, Summary = [],
       Err = Some (Errorf ''no transcript available'' []) \<rparr>
   \<and> summarizeCalls (snd (worker (exampleWorld succeedingRun [] []) exampleCfg
          (Some (textModel ''unused'')) exampleVideo)) = []
   \<and> fst (worker (exampleWorld succeedingRun [''abc.en.vtt''] ''hello world '') exampleCfg None
          exampleVideo) =
     Inr \<lparr> VideoDetails = exampleVideo, Summary = [],
       Err = Some (Errorf ''summarization skipped (Gemini client not available)'' []) \<rparr>
   \<and> fst (worker (exampleWorld succeedingRun [''abc.en.vtt''] ''hello world '') exampleCfg
          (Some failingModel) exampleVideo) =
     Inr \<lparr> VideoDetails = exampleVideo, Summary = [],
       Err = Some (Errorf ''gemini GenerateContent failed: %w''
                    [ArgW (External ''context deadline exceeded'')]) \<rparr>
   \<and> fst (worker (exampleWorld succeedingRun [''abc.en.vtt''] ''hello world '') exampleCfg
          (Some (textModel '' A short summary. '')) exampleVideo) =
     Inr \<lparr> VideoDetails = exampleVideo, Summary = ''A short summary.'', Err = None \<rparr>"
proof -
  let ?fail = "exampleWorld failingRun [] []"
  let ?absent = "exampleWorld succeedingRun [] []"
  let ?ok = "exampleWorld succeedingRun [''abc.en.vtt''] ''hello world ''"
  have a1: "acquire ?fail exampleCfg exampleVideo =
     ([], Some (Errorf
            (''yt-dlp command for video %s failed after %d attempts: %w'' @
             [CHR 0x0A] @ ''Last Output: %s'')
            [ArgS ''abc'', ArgI 3, ArgW (External ''exit status 1''), ArgS ''network down'']))"
    by code_simp
  have a2: "acquire ?absent exampleCfg exampleVideo = ([], None)"
    by code_simp
  have a3: "acquire ?ok exampleCfg exampleVideo = (''hello world'', None)"
    by code_simp
  have s4: "summarize failingModel exampleCfg ''hello world'' =
     Inr ([], Some (Errorf ''gemini GenerateContent failed: %w''
                  [ArgW (External ''context deadline exceeded'')]))"
    by code_simp
  have s5: "summarize (textModel '' A short summary. '') exampleCfg ''hello world'' =
     Inr (''A short summary.'', None)"
    by code_simp
  have t5: "TrimSpace ''A short summary.'' = ''A short summary.''"
    by code_simp
  show ?thesis
    using worker_step_order [of ?fail exampleCfg exampleVideo None]
      worker_step_order [of ?absent exampleCfg exampleVideo "Some (textModel ''unused'')"]
      worker_step_order [of ?ok exampleCfg exampleVideo None]
      worker_step_order [of ?ok exampleCfg exampleVideo "Some failingModel"]
      worker_step_order [of ?ok exampleCfg exampleVideo "Some (textModel '' A short summary. '')"]
    by (simp add: a1 a2 a3 s4 s5 t5)
qed

text \<open>
  C8. A result produced by a worker never carries both a summary that is not empty and
  an error that is not nil.
\<close>

theorem worker_result_exclusive:
  assumes "fst (worker w cfg client v) = Inr result"
  shows "\<not> (Summary result \<noteq> [] \<and> Err result \<noteq> None)"
  using assms
  by (auto simp add: worker_result split: option.splits sum.splits prod.splits if_splits)

theorem worker_result_exclusive_witness:
  "fst (worker (exampleWorld succeedingRun [''abc.en.vtt''] ''hello world '') exampleCfg
          (Some (textModel '' A short summary. '')) exampleVideo) =
     Inr \<lparr> VideoDetails = exampleVideo, Summary = ''A short summary.'', Err = None \<rparr>
   \<and> \<not> (Summary \<lparr> VideoDetails = exampleVideo, Summary = ''A short summary.'', Err = None \<rparr> \<noteq> []
        \<and> Err \<lparr> VideoDetails = exampleVideo, Summary = ''A short summary.'', Err = None \<rparr>
            \<noteq> None)"
proof -
  have r: "fst (worker (exampleWorld succeedingRun [''abc.en.vtt''] ''hello world '') exampleCfg
          (Some (textModel '' A short summary. '')) exampleVideo) =
     Inr \<lparr> VideoDetails = exampleVideo, Summary = ''A short summary.'', Err = None \<rparr>"
    by code_simp
  show ?thesis
    using worker_result_exclusive [OF r] r by (intro conjI)
qed

text \<open>
  C10. On the empty transcript summarizeTranscriptWithGemini returns the fixed text
  "Transcript was empty, no summary generated." with a nil error and makes no
  GenerateContent request. No worker reaches this branch: a worker never calls the
  summarizer on the empty transcript. Were the text to reach the report as a summary
  (trimming leaves it as it is), the report would count the item among the successful
  summaries and not among the errors.
\<close>

theorem empty_transcript_placeholder:
  "summarizeTranscriptWithGemini geminiModel [] cfg =
     (Inr (''Transcript was empty, no summary generated.'', None), [])
   \<and> [] \<notin> set (summarizeCalls (snd (worker w cfg client v)))
   \<and> TrimSpace ''Transcript was empty, no summary generated.'' =
       ''Transcript was empty, no summary generated.''
   \<and> successfulSummaries (report cfg [v]
        [ID v \<mapsto> \<lparr> VideoDetails = v,
                     Summary = ''Transcript was empty, no summary generated.'',
                     Err = None \<rparr>]) = 1
   \<and> videosWithErrors (report cfg [v]
        [ID v \<mapsto> \<lparr> VideoDetails = v,
                     Summary = ''Transcript was empty, no summary generated.'',
                     Err = None \<rparr>]) = 0"
proof -
  have t: "TrimSpace ''Transcript was empty, no summary generated.'' =
       ''Transcript was empty, no summary generated.''"
    by code_simp
  show ?thesis
    by (simp add: t summarizeTranscriptWithGemini_def worker_summarizeCalls report_def
          reportVideo_def)
qed

theorem empty_transcript_placeholder_witness:
  "fst (summarizeTranscriptWithGemini failingModel [] exampleCfg) =
     Inr (''Transcript was empty, no summary generated.'', None)
   \<and> summarizeCalls (snd (worker (exampleWorld succeedingRun [''abc.en.vtt''] ''hello world '')
          exampleCfg (Some failingModel) exampleVideo)) = [''hello world'']
   \<and> successfulSummaries (report exampleCfg [exampleVideo]
        [ID exampleVideo \<mapsto> \<lparr> VideoDetails = exampleVideo,
                     Summary = ''Transcript was empty, no summary generated.'',
                     Err = None \<rparr>]) = 1"
proof -
  have c: "summarizeCalls (snd (worker (exampleWorld succeedingRun [''abc.en.vtt''] ''hello world '')
          exampleCfg (Some failingModel) exampleVideo)) = [''hello world'']"
    by code_simp
  show ?thesis
    using empty_transcript_placeholder [of failingModel exampleCfg
        "exampleWorld succeedingRun [''abc.en.vtt''] ''hello world ''" "Some failingModel"
        exampleVideo] c
    by simp
qed

section \<open>The coordinator keeps its invariants\<close>

text \<open>Runs are extended at the end; properties of all reachable states follow by induction on that.\<close>

lemma run_append:
  "run w cfg client (xs @ ys) s =
     (case run w cfg client xs s of None \<Rightarrow> None | Some s' \<Rightarrow> run w cfg client ys s')"
  by (induction xs arbitrary: s) (auto split: option.splits)

lemma run_induct [consumes 1, case_names Init Step]:
  assumes "run w cfg client schedule s0 = Some s"
    and "P [] s0"
    and "\<And>schedule s a s'. run w cfg client schedule s0 = Some s \<Longrightarrow> P schedule s \<Longrightarrow>
           step w cfg client a s = Some s' \<Longrightarrow> P (schedule @ [a]) s'"
  shows "P schedule s"
  using assms(1)
proof (induction schedule arbitrary: s rule: rev_induct)
  case Nil
  then show ?case using assms(2) by simp
next
  case (snoc a schedule)
  from snoc.prems obtain s1
    where r: "run w cfg client schedule s0 = Some s1" and st: "step w cfg client a s1 = Some s"
    by (auto simp add: run_append split: option.splits)
  show ?case using assms(3) [OF r snoc.IH [OF r] st] .
qed

lemma length_setPhase [simp]: "length (setPhase i p ws) = length ws"
  by (simp add: setPhase_def)

lemma map_fst_setPhase [simp]: "map fst (setPhase i p ws) = map fst ws"
  by (cases "i < length ws") (simp_all add: setPhase_def list_eq_iff_nth_eq nth_list_update)

lemma map_snd_setPhase: "i < length ws \<Longrightarrow> map snd (setPhase i p ws) = (map snd ws)[i := p]"
  by (simp add: setPhase_def map_update)

lemma fst_nth_setPhase [simp]: "fst (setPhase i p ws ! j) = fst (ws ! j)"
  by (cases "i < length ws") (simp_all add: setPhase_def nth_list_update list_update_beyond)

lemma snd_nth_setPhase [simp]:
  "j < length ws \<Longrightarrow> snd (setPhase i p ws ! j) = (if j = i then p else snd (ws ! j))"
  by (cases "i < length ws") (auto simp add: setPhase_def nth_list_update)

lemma length_filter_update:
  "i < length xs \<Longrightarrow>
   length (filter P (xs[i := y])) + (if P (xs ! i) then 1 else 0) =
   length (filter P xs) + (if P y then 1 else 0)"
proof (induction xs arbitrary: i)
  case Nil
  then show ?case by simp
next
  case (Cons x xs)
  then show ?case by (cases i) auto
qed

lemma filter_none_nth:
  "length (filter P xs) = 0 \<Longrightarrow> i < length xs \<Longrightarrow> \<not> P (xs ! i)"
  by (metis filter_empty_conv length_0_conv nth_mem)

text \<open>What the steps of a worker do, by the phase it is in.\<close>

lemma step_Work:
  assumes "step w cfg client (Work i) s = Some s'"
  shows "pc s \<noteq> Crashed \<and> inPhase s i Running \<and>
         (panics w cfg client (fst (workers s ! i)) \<and>
            s' = s \<lparr> workers := setPhase i Panicking (workers s) \<rparr>
          \<or> \<not> panics w cfg client (fst (workers s ! i)) \<and>
            fst (worker w cfg client (fst (workers s ! i))) =
              Inr (resultOf w cfg client (fst (workers s ! i))) \<and>
            s' = s \<lparr> workers := setPhase i Sent (workers s),
                      resultsChannel := resultsChannel s @
                        [resultOf w cfg client (fst (workers s ! i))] \<rparr>)"
  using assms by (auto simp add: panics_def resultOf_def split: if_splits sum.splits)

lemma step_Release:
  assumes "step w cfg client (Release i) s = Some s'"
  shows "pc s \<noteq> Crashed \<and> 0 < semaphore s \<and>
         (inPhase s i Sent \<and>
            s' = s \<lparr> workers := setPhase i Released (workers s), semaphore := semaphore s - 1 \<rparr>
          \<or> inPhase s i Panicking \<and>
            s' = s \<lparr> workers := setPhase i Unwinding (workers s), semaphore := semaphore s - 1 \<rparr>)"
  using assms by (auto split: if_splits)

lemma step_Done:
  assumes "step w cfg client (Done i) s = Some s'"
  shows "pc s \<noteq> Crashed \<and> 0 < wg s \<and>
         (inPhase s i Released \<and>
            s' = s \<lparr> workers := setPhase i Finished (workers s), wg := wg s - 1 \<rparr>
          \<or> inPhase s i Unwinding \<and> s' = s \<lparr> wg := wg s - 1, pc := Crashed \<rparr>)"
  using assms by (auto split: if_splits)

lemma structInv_init: "structInv (init cfg vs)"
  by (simp add: structInv_def init_def)

lemma videos_step: "step w cfg client a s = Some s' \<Longrightarrow> videos s' = videos s"
  by (cases a) (auto split: list.splits if_splits sum.splits)

lemma structInv_step:
  "step w cfg client a s = Some s' \<Longrightarrow> structInv s \<Longrightarrow> structInv s'"
  by (cases a) (auto simp add: structInv_def split: list.splits if_splits sum.splits)

lemma slotInv_init: "0 \<le> ConcurrencyLimit cfg \<Longrightarrow> slotInv cfg (init cfg vs)"
  by (simp add: slotInv_def init_def holding_def)

lemma holding_setPhase:
  "i < length (workers s) \<Longrightarrow>
   length (filter holdsSlot (map snd (setPhase i p (workers s)))) +
     (if holdsSlot (snd (workers s ! i)) then 1 else 0) =
   holding s + (if holdsSlot p then 1 else 0)"
  using length_filter_update [of i "map snd (workers s)" holdsSlot p]
  by (simp add: holding_def map_snd_setPhase)

lemma holding_phase:
  assumes "inPhase s i p" and "workers s' = setPhase i q (workers s)"
  shows "holding s' + (if holdsSlot p then 1 else 0) = holding s + (if holdsSlot q then 1 else 0)"
  using assms holding_setPhase [of i s q] by (simp add: inPhase_def holding_def)

lemma slotInv_step:
  assumes "step w cfg client a s = Some s'" and "slotInv cfg s"
  shows "slotInv cfg s'"
proof (cases a)
  case Dispatch
  then show ?thesis using assms
    by (auto simp add: slotInv_def holding_def holdsSlot_def split: list.splits if_splits)
next
  case (Work i)
  from step_Work [OF assms(1) [unfolded Work]]
  have r: "inPhase s i Running" and sem: "semaphore s' = semaphore s"
    and ws: "workers s' = setPhase i Panicking (workers s) \<or>
             workers s' = setPhase i Sent (workers s)"
    by auto
  from ws have "holding s' = holding s"
  proof
    assume "workers s' = setPhase i Panicking (workers s)"
    from holding_phase [OF r this] show ?thesis by (simp add: holdsSlot_def)
  next
    assume "workers s' = setPhase i Sent (workers s)"
    from holding_phase [OF r this] show ?thesis by (simp add: holdsSlot_def)
  qed
  then show ?thesis using assms(2) sem by (simp add: slotInv_def)
next
  case (Release i)
  from step_Release [OF assms(1) [unfolded Release]]
  have pos: "0 < semaphore s" and sem: "semaphore s' = semaphore s - 1"
    and ws: "inPhase s i Sent \<and> workers s' = setPhase i Released (workers s) \<or>
             inPhase s i Panicking \<and> workers s' = setPhase i Unwinding (workers s)"
    by auto
  from ws have "holding s' + 1 = holding s"
  proof (elim disjE conjE)
    assume "inPhase s i Sent" "workers s' = setPhase i Released (workers s)"
    from holding_phase [OF this] show ?thesis by (simp add: holdsSlot_def)
  next
    assume "inPhase s i Panicking" "workers s' = setPhase i Unwinding (workers s)"
    from holding_phase [OF this] show ?thesis by (simp add: holdsSlot_def)
  qed
  then show ?thesis using assms(2) sem pos by (simp add: slotInv_def)
next
  case (Done i)
  from step_Done [OF assms(1) [unfolded Done]]
  have sem: "semaphore s' = semaphore s"
    and ws: "inPhase s i Released \<and> workers s' = setPhase i Finished (workers s) \<or>
             workers s' = workers s"
    by auto
  from ws have "holding s' = holding s"
  proof (elim disjE conjE)
    assume "inPhase s i Released" "workers s' = setPhase i Finished (workers s)"
    from holding_phase [OF this] show ?thesis by (simp add: holdsSlot_def)
  next
    assume "workers s' = workers s"
    then show ?thesis by (simp add: holding_def)
  qed
  then show ?thesis using assms(2) sem by (simp add: slotInv_def)
qed (use assms in \<open>auto simp add: slotInv_def holding_def split: list.splits if_splits\<close>)

lemma executing_le_holding: "executing s \<le> holding s"
proof -
  have "length (filter (\<lambda>p. p = Running) ps) \<le> length (filter holdsSlot ps)" for ps
    by (induction ps) (auto simp add: holdsSlot_def)
  from this [of "map snd (workers s)"] show ?thesis
    unfolding executing_def holding_def .
qed

lemma wgInv_init: "wgInv (init cfg vs)"
  by (simp add: wgInv_def init_def unfinished_def)

lemma unfinished_setPhase:
  "i < length (workers s) \<Longrightarrow>
   length (filter (\<lambda>p. p \<noteq> Finished) (map snd (setPhase i p (workers s)))) +
     (if snd (workers s ! i) \<noteq> Finished then 1 else 0) =
   unfinished s + (if p \<noteq> Finished then 1 else 0)"
  using length_filter_update [of i "map snd (workers s)" "\<lambda>p. p \<noteq> Finished" p]
  by (simp add: unfinished_def map_snd_setPhase)

lemma all_finished:
  assumes "unfinished s = 0" and "i < length (workers s)"
  shows "snd (workers s ! i) = Finished"
  using filter_none_nth [of "\<lambda>p. p \<noteq> Finished" "map snd (workers s)" i] assms
  by (simp add: unfinished_def)

lemma unfinished_phase:
  assumes "inPhase s i p" and "workers s' = setPhase i q (workers s)"
  shows "unfinished s' + (if p \<noteq> Finished then 1 else 0) =
         unfinished s + (if q \<noteq> Finished then 1 else 0)"
  using assms unfinished_setPhase [of i s q] by (simp add: inPhase_def unfinished_def)

lemma wgInv_step:
  assumes "step w cfg client a s = Some s'" and "wgInv s"
  shows "wgInv s'"
proof (cases a)
  case Dispatch
  then show ?thesis using assms
    by (auto simp add: wgInv_def unfinished_def split: list.splits if_splits)
next
  case (Work i)
  from step_Work [OF assms(1) [unfolded Work]]
  have r: "inPhase s i Running" and alive: "pc s \<noteq> Crashed"
    and fr: "wg s' = wg s" "pc s' = pc s" "closed s' = closed s"
    and ws: "workers s' = setPhase i Panicking (workers s) \<or>
             workers s' = setPhase i Sent (workers s)"
    by auto
  have open_: "\<not> closed s"
    using all_finished [of s i] r assms(2) by (auto simp add: wgInv_def inPhase_def)
  from ws have "unfinished s' = unfinished s"
  proof
    assume "workers s' = setPhase i Panicking (workers s)"
    from unfinished_phase [OF r this] show ?thesis by simp
  next
    assume "workers s' = setPhase i Sent (workers s)"
    from unfinished_phase [OF r this] show ?thesis by simp
  qed
  then show ?thesis using assms(2) fr open_ by (simp add: wgInv_def)
next
  case (Release i)
  from step_Release [OF assms(1) [unfolded Release]]
  have fr: "wg s' = wg s" "pc s' = pc s" "closed s' = closed s"
      "resultsChannel s' = resultsChannel s"
    and ws: "inPhase s i Sent \<and> workers s' = setPhase i Released (workers s) \<or>
             inPhase s i Panicking \<and> workers s' = setPhase i Unwinding (workers s)"
    by auto
  from ws have "unfinished s' = unfinished s"
  proof (elim disjE conjE)
    assume "inPhase s i Sent" "workers s' = setPhase i Released (workers s)"
    from unfinished_phase [OF this] show ?thesis by simp
  next
    assume "inPhase s i Panicking" "workers s' = setPhase i Unwinding (workers s)"
    from unfinished_phase [OF this] show ?thesis by simp
  qed
  then show ?thesis using assms(2) fr by (simp add: wgInv_def)
next
  case (Done i)
  from step_Done [OF assms(1) [unfolded Done]]
  have alive: "pc s \<noteq> Crashed" and pos: "0 < wg s" and fr: "wg s' = wg s - 1"
      "closed s' = closed s" "resultsChannel s' = resultsChannel s"
    and ws: "inPhase s i Released \<and> workers s' = setPhase i Finished (workers s) \<and> pc s' = pc s \<or>
             pc s' = Crashed"
    by auto
  have open_: "\<not> closed s" using assms(2) pos by (auto simp add: wgInv_def)
  from ws show ?thesis
  proof (elim disjE conjE)
    assume p: "inPhase s i Released" "workers s' = setPhase i Finished (workers s)"
      and pc: "pc s' = pc s"
    from unfinished_phase [OF p] have "unfinished s' + 1 = unfinished s" by simp
    then show ?thesis using assms(2) fr pc pos alive open_ by (auto simp add: wgInv_def)
  next
    assume "pc s' = Crashed"
    then show ?thesis using assms(2) fr open_ by (simp add: wgInv_def)
  qed
qed (use assms in \<open>auto simp add: wgInv_def unfinished_def split: list.splits if_splits\<close>)

lemma keyInv_init: "keyInv (init cfg vs)"
  by (simp add: keyInv_def init_def)

lemma allResults_step:
  assumes "step w cfg client a s = Some s'" and "a \<noteq> Collect"
  shows "allResults s' = allResults s"
  using assms by (cases a) (auto split: list.splits if_splits sum.splits)

lemma resultsChannel_step:
  assumes "step w cfg client a s = Some s'" and "a \<noteq> Collect" and "\<forall>i. a \<noteq> Work i"
  shows "resultsChannel s' = resultsChannel s"
  using assms by (cases a) (auto split: list.splits if_splits sum.splits)

lemma step_Collect:
  assumes "step w cfg client Collect s = Some s'"
  shows "\<exists>result rest. resultsChannel s = result # rest \<and>
           s' = s \<lparr> allResults := (allResults s)(ID (VideoDetails result) \<mapsto> result),
                     resultsChannel := rest \<rparr>"
  using assms by (auto split: list.splits if_splits)

lemma keyInv_step: "step w cfg client a s = Some s' \<Longrightarrow> keyInv s \<Longrightarrow> keyInv s'"
  using allResults_step [of w cfg client a s s'] step_Collect [of w cfg client s s']
  by (cases "a = Collect") (auto simp add: keyInv_def split: if_splits)

lemma sentInv_init: "sentInv w cfg client (init cfg vs)"
  by (simp add: sentInv_def init_def)

lemma sentInv_step:
  assumes "step w cfg client a s = Some s'" and "sentInv w cfg client s"
  shows "sentInv w cfg client s'"
proof (cases a)
  case Dispatch
  then show ?thesis using assms
    by (auto simp add: sentInv_def hasSent_def nth_append split: list.splits if_splits)
next
  case (Work i)
  then show ?thesis using assms(2) step_Work [OF assms(1) [unfolded Work]]
    by (auto simp add: sentInv_def hasSent_def inPhase_def split: if_splits)
next
  case (Release i)
  then show ?thesis using assms(2) step_Release [OF assms(1) [unfolded Release]]
    by (auto simp add: sentInv_def hasSent_def inPhase_def split: if_splits)
next
  case (Done i)
  then show ?thesis using assms(2) step_Done [OF assms(1) [unfolded Done]]
    by (auto simp add: sentInv_def hasSent_def inPhase_def split: if_splits)
qed (use assms in \<open>auto simp add: sentInv_def split: list.splits if_splits\<close>)

lemma chanInv_init: "chanInv w cfg client (init cfg vs)"
  by (simp add: chanInv_def init_def)

lemma sentBy_step:
  assumes "step w cfg client a s = Some s'" and "sentBy w cfg client s i r"
  shows "sentBy w cfg client s' i r"
proof (cases a)
  case Dispatch
  then show ?thesis using assms
    by (auto simp add: sentBy_def nth_append split: list.splits if_splits)
next
  case (Work j)
  then show ?thesis using assms(2) step_Work [OF assms(1) [unfolded Work]]
    by (auto simp add: sentBy_def hasSent_def inPhase_def split: if_splits)
next
  case (Release j)
  then show ?thesis using assms(2) step_Release [OF assms(1) [unfolded Release]]
    by (auto simp add: sentBy_def hasSent_def inPhase_def split: if_splits)
next
  case (Done j)
  then show ?thesis using assms(2) step_Done [OF assms(1) [unfolded Done]]
    by (auto simp add: sentBy_def hasSent_def inPhase_def split: if_splits)
qed (use assms in \<open>auto simp add: sentBy_def split: list.splits if_splits\<close>)

lemma sentBy_resultOf:
  "sentBy w cfg client s i r \<Longrightarrow> r = resultOf w cfg client (fst (workers s ! i))"
  by (simp add: sentBy_def resultOf_def)

lemma chanInv_step:
  assumes st: "step w cfg client a s = Some s'" and inv: "chanInv w cfg client s"
  shows "chanInv w cfg client s'"
proof -
  have keep: "\<exists>i. sentBy w cfg client s' i r" if "\<exists>i. sentBy w cfg client s i r" for r
    using that sentBy_step [OF st] by blast
  consider (Work) j where "a = Work j" | (Collect) "a = Collect"
    | (Other) "a \<noteq> Collect" "\<forall>i. a \<noteq> Work i"
    by blast
  then show ?thesis
  proof cases
    case Work
    note w = step_Work [OF st [unfolded Work]]
    let ?r = "resultOf w cfg client (fst (workers s ! j))"
    have stored: "allResults s' = allResults s"
      using allResults_step [OF st] Work by simp
    have chan: "r \<in> set (resultsChannel s') \<Longrightarrow>
                r \<in> set (resultsChannel s) \<or> (r = ?r \<and> sentBy w cfg client s' j ?r)" for r
      using w by (auto simp add: sentBy_def hasSent_def inPhase_def)
    show ?thesis
      unfolding chanInv_def
    proof (intro conjI ballI allI impI)
      fix r assume "r \<in> set (resultsChannel s')"
      then show "\<exists>i. sentBy w cfg client s' i r"
        using chan [of r] inv keep by (auto simp add: chanInv_def)
    next
      fix k r assume "allResults s' k = Some r"
      then show "\<exists>i. sentBy w cfg client s' i r"
        using stored inv keep by (auto simp add: chanInv_def)
    qed
  next
    case Collect
    from step_Collect [OF st [unfolded Collect]] obtain result rest
      where ch: "resultsChannel s = result # rest" and
      s': "s' = s \<lparr> allResults := (allResults s)(ID (VideoDetails result) \<mapsto> result),
                    resultsChannel := rest \<rparr>"
      by blast
    show ?thesis
      unfolding chanInv_def
    proof (intro conjI ballI allI impI)
      fix r assume "r \<in> set (resultsChannel s')"
      then have "r \<in> set (resultsChannel s)" by (simp add: s' ch)
      then show "\<exists>i. sentBy w cfg client s' i r"
        using inv keep by (auto simp add: chanInv_def)
    next
      fix k r assume "allResults s' k = Some r"
      then have "allResults s k = Some r \<or> r \<in> set (resultsChannel s)"
        by (auto simp add: s' ch split: if_splits)
      then show "\<exists>i. sentBy w cfg client s' i r"
        using inv keep by (auto simp add: chanInv_def)
    qed
  next
    case Other
    then have "resultsChannel s' = resultsChannel s" "allResults s' = allResults s"
      using resultsChannel_step [OF st] allResults_step [OF st] by simp_all
    then show ?thesis using inv keep by (auto simp add: chanInv_def)
  qed
qed

lemma deliveredInv_init: "deliveredInv w cfg client (init cfg vs)"
  by (simp add: deliveredInv_def init_def)

lemma resultOf_VideoDetails [simp]: "VideoDetails (resultOf w cfg client v) = v"
proof (cases "fst (worker w cfg client v)")
  case (Inl p)
  then show ?thesis by (simp add: resultOf_def)
next
  case (Inr r)
  then show ?thesis using worker_VideoDetails [OF Inr] by (simp add: resultOf_def)
qed

lemma workers_distinct:
  assumes "structInv s" and "distinct (map ID (videos s))"
    and "i < length (workers s)" and "j < length (workers s)"
    and "ID (fst (workers s ! i)) = ID (fst (workers s ! j))"
  shows "i = j"
proof -
  have "distinct (map ID (map fst (workers s)))"
    using assms(1,2) unfolding structInv_def by (metis distinct_append map_append)
  then show ?thesis
    using assms(3,4,5) by (auto simp add: distinct_conv_nth)
qed

lemma deliveredInv_step:
  assumes st: "step w cfg client a s = Some s'"
    and inv: "deliveredInv w cfg client s"
    and ch: "chanInv w cfg client s"
    and str: "structInv s"
    and dist: "distinct (map ID (videos s))"
  shows "deliveredInv w cfg client s'"
proof (cases a)
  case Dispatch
  then show ?thesis using st inv
    by (auto simp add: deliveredInv_def hasSent_def nth_append split: list.splits if_splits)
next
  case ExitLoop
  then show ?thesis using st inv
    by (auto simp add: deliveredInv_def split: if_splits)
next
  case (Work j)
  then show ?thesis using inv step_Work [OF st [unfolded Work]]
    by (auto simp add: deliveredInv_def hasSent_def inPhase_def split: if_splits)
next
  case (Release j)
  then show ?thesis using inv step_Release [OF st [unfolded Release]]
    by (auto simp add: deliveredInv_def hasSent_def inPhase_def split: if_splits)
next
  case (Done j)
  then show ?thesis using inv step_Done [OF st [unfolded Done]]
    by (auto simp add: deliveredInv_def hasSent_def inPhase_def split: if_splits)
next
  case Close
  then show ?thesis using st inv
    by (auto simp add: deliveredInv_def split: if_splits)
next
  case EndCollect
  then show ?thesis using st inv
    by (auto simp add: deliveredInv_def split: if_splits)
next
  case Collect
  from step_Collect [OF st [unfolded Collect]] obtain result rest
    where c: "resultsChannel s = result # rest" and
    s': "s' = s \<lparr> allResults := (allResults s)(ID (VideoDetails result) \<mapsto> result),
                  resultsChannel := rest \<rparr>"
    by blast
  from ch c obtain j where j: "sentBy w cfg client s j result"
    by (auto simp add: chanInv_def)
  have rj: "result = resultOf w cfg client (fst (workers s ! j))"
    using sentBy_resultOf [OF j] .
  show ?thesis
    unfolding deliveredInv_def
  proof (intro allI impI)
    fix i assume i: "i < length (workers s')" and p: "hasSent (snd (workers s' ! i))"
    let ?v = "fst (workers s ! i)"
    have old: "resultOf w cfg client ?v \<in> set (resultsChannel s) \<or>
               allResults s (ID ?v) = Some (resultOf w cfg client ?v)"
      using inv i p by (simp add: deliveredInv_def s')
    show "resultOf w cfg client (fst (workers s' ! i)) \<in> set (resultsChannel s') \<or>
          allResults s' (ID (fst (workers s' ! i))) =
            Some (resultOf w cfg client (fst (workers s' ! i)))"
    proof (cases "ID (VideoDetails result) = ID ?v")
      case True
      then have "ID (fst (workers s ! j)) = ID ?v" using rj by simp
      then have "j = i"
        using workers_distinct [OF str dist, of j i] j i by (simp add: sentBy_def s')
      then have "result = resultOf w cfg client ?v" using rj by simp
      then show ?thesis by (simp add: s')
    next
      case False
      then have "resultOf w cfg client ?v \<noteq> result" by auto
      then show ?thesis using old False by (auto simp add: s' c)
    qed
  qed
qed

text \<open>All invariants together.\<close>

lemma coordInv_run:
  assumes "run w cfg client schedule (init cfg vs) = Some s"
  shows "coordInv w cfg client s \<and> videos s = vs"
  using assms
proof (induction rule: run_induct)
  case Init
  show ?case
    by (simp add: coordInv_def structInv_init wgInv_init keyInv_init chanInv_init
          sentInv_init deliveredInv_init) (simp add: init_def)
next
  case (Step schedule s a s')
  then show ?case
    using videos_step [of w cfg client a s s'] structInv_step [of w cfg client a s s']
      wgInv_step [of w cfg client a s s'] keyInv_step [of w cfg client a s s']
      chanInv_step [of w cfg client a s s'] sentInv_step [of w cfg client a s s']
      deliveredInv_step [of w cfg client a s s']
    by (auto simp add: coordInv_def)
qed

lemma slotInv_run:
  assumes "run w cfg client schedule (init cfg vs) = Some s" and "0 \<le> ConcurrencyLimit cfg"
  shows "slotInv cfg s"
  using assms(1)
proof (induction rule: run_induct)
  case Init
  show ?case using assms(2) by (rule slotInv_init)
next
  case (Step schedule s a s')
  then show ?case using slotInv_step by blast
qed


lemma listed_append: "listed (xs @ ys) = listed xs @ listed ys"
  by (induction xs rule: listed.induct) auto

text \<open>The item each block of the report is printed for: the stored result's video, or the video itself when no result is stored.\<close>

lemma listed_reportVideo:
  "listed (printedOut (reportVideo cfg m rep video)) =
     listed (printedOut rep) @ [case m (ID video) of None \<Rightarrow> video | Some r \<Rightarrow> VideoDetails r]"
  by (simp add: reportVideo_def Let_def listed_append split: option.splits)

lemma listed_foldl:
  "listed (printedOut (foldl (reportVideo cfg m) rep vs)) =
     listed (printedOut rep) @ map (\<lambda>v. case m (ID v) of None \<Rightarrow> v | Some r \<Rightarrow> VideoDetails r) vs"
  by (induction vs arbitrary: rep) (simp_all add: listed_reportVideo)

lemma listed_report:
  "listed (printedOut (report cfg vs m)) =
     map (\<lambda>v. case m (ID v) of None \<Rightarrow> v | Some r \<Rightarrow> VideoDetails r) vs"
  by (simp add: report_def listed_foldl)

lemma map_of_results:
  "distinct (map ID vs) \<Longrightarrow> v \<in> set vs \<Longrightarrow>
   map_of (map (\<lambda>v. (ID v, f v)) vs) (ID v) = Some (f v)"
proof (induction vs)
  case Nil
  then show ?case by simp
next
  case (Cons a vs)
  show ?case
  proof (cases "v = a")
    case True
    then show ?thesis by simp
  next
    case False
    then have v: "v \<in> set vs" using Cons.prems(2) by simp
    then have "ID v \<in> ID ` set vs" by (rule imageI)
    then have "ID v \<noteq> ID a" using Cons.prems(1) by auto
    then show ?thesis using Cons.IH [OF _ v] Cons.prems(1) by simp
  qed
qed

lemma map_of_results_None:
  "k \<notin> ID ` set vs \<Longrightarrow> map_of (map (\<lambda>v. (ID v, f v)) vs) k = None"
  by (induction vs) auto

text \<open>What holds once the collection loop has ended.\<close>

lemma closed_state:
  assumes "run w cfg client schedule (init cfg vs) = Some s" and "closed s"
  shows "pending s = []" and "map fst (workers s) = vs" and "unfinished s = 0"
    and "i < length (workers s) \<Longrightarrow> snd (workers s ! i) = Finished"
proof -
  have inv: "coordInv w cfg client s" and v: "videos s = vs"
    using coordInv_run [OF assms(1)] by simp_all
  show p: "pending s = []"
    using inv assms(2) by (auto simp add: coordInv_def wgInv_def structInv_def)
  show "map fst (workers s) = vs"
    using inv p v by (simp add: coordInv_def structInv_def)
  show u: "unfinished s = 0"
    using inv assms(2) by (auto simp add: coordInv_def wgInv_def)
  show "i < length (workers s) \<Longrightarrow> snd (workers s ! i) = Finished"
    using all_finished [OF u] .
qed

text \<open>No worker has panicked in a run that got to close the channel.\<close>

lemma closed_no_panic:
  assumes "run w cfg client schedule (init cfg vs) = Some s" and "closed s"
  shows "list_all (\<lambda>v. \<not> panics w cfg client v) vs"
proof -
  have inv: "sentInv w cfg client s"
    using coordInv_run [OF assms(1)] by (simp add: coordInv_def)
  have ws: "map fst (workers s) = vs" using closed_state(2) [OF assms] .
  have "\<not> panics w cfg client v" if "v \<in> set vs" for v
  proof -
    from that ws obtain i where i: "i < length (workers s)" and vi: "fst (workers s ! i) = v"
      by (metis in_set_conv_nth length_map nth_map)
    have "snd (workers s ! i) = Finished" using closed_state(4) [OF assms i] .
    then show ?thesis using inv i vi by (auto simp add: sentInv_def hasSent_def)
  qed
  then show ?thesis by (simp add: list_all_iff)
qed

lemma reporting_state:
  assumes "run w cfg client schedule (init cfg vs) = Some s" and "pc s = Reporting"
  shows "closed s" and "resultsChannel s = []"
  using coordInv_run [OF assms(1)] assms(2) by (simp_all add: coordInv_def wgInv_def)

text \<open>A stored result is the result of a video of the playlist.\<close>

lemma stored_video:
  assumes "run w cfg client schedule (init cfg vs) = Some s" and "allResults s k = Some r"
  shows "VideoDetails r \<in> set vs"
proof -
  have inv: "coordInv w cfg client s" and v: "videos s = vs"
    using coordInv_run [OF assms(1)] by simp_all
  have "chanInv w cfg client s" using inv by (simp add: coordInv_def)
  then obtain i where i: "sentBy w cfg client s i r"
    using assms(2) unfolding chanInv_def by blast
  then have "VideoDetails r = fst (workers s ! i)" and l: "i < length (workers s)"
    using sentBy_resultOf [OF i] by (simp_all add: sentBy_def)
  moreover have "fst (workers s ! i) \<in> set (map fst (workers s))"
    using l by (metis length_map nth_map nth_mem)
  moreover have "set (map fst (workers s)) \<subseteq> set vs"
    using inv v unfolding coordInv_def structInv_def by (metis set_append Un_upper1)
  ultimately show ?thesis by auto
qed

lemma batch_lookup:
  assumes r: "run w cfg client schedule (init cfg vs) = Some s" and p: "pc s = Reporting"
    and d: "distinct (map ID vs)"
  shows "allResults s = map_of (map (\<lambda>v. (ID v, resultOf w cfg client v)) vs)"
proof
  fix k
  have inv: "coordInv w cfg client s" and v: "videos s = vs"
    using coordInv_run [OF r] by simp_all
  have c: "closed s" and e: "resultsChannel s = []"
    using reporting_state [OF r p] by simp_all
  have ws: "map fst (workers s) = vs" using closed_state(2) [OF r c] .
  have del: "deliveredInv w cfg client s" using inv d v by (simp add: coordInv_def)
  show "allResults s k = map_of (map (\<lambda>v. (ID v, resultOf w cfg client v)) vs) k"
  proof (cases "k \<in> ID ` set vs")
    case True
    then obtain x where x: "x \<in> set vs" and k: "k = ID x" by auto
    then obtain i where i: "i < length (workers s)" and xi: "fst (workers s ! i) = x"
      using ws by (metis in_set_conv_nth length_map nth_map)
    have "snd (workers s ! i) = Finished" using closed_state(4) [OF r c i] .
    then have "allResults s (ID x) = Some (resultOf w cfg client x)"
      using del i xi e by (auto simp add: deliveredInv_def hasSent_def)
    then show ?thesis using map_of_results [OF d x, of "resultOf w cfg client"] k by simp
  next
    case False
    have "allResults s k = None"
    proof (rule ccontr)
      assume "allResults s k \<noteq> None"
      then obtain r' where a: "allResults s k = Some r'" by auto
      have "ID (VideoDetails r') = k" using inv a by (auto simp add: coordInv_def keyInv_def)
      moreover have "VideoDetails r' \<in> set vs" using stored_video [OF r a] .
      ultimately show False using False by auto
    qed
    then show ?thesis
      using map_of_results_None [OF False, of "resultOf w cfg client"] by simp
  qed
qed

text \<open>
  Whatever the IDs, the report has one block for each video of the playlist, under the
  IDs of the playlist in order; the blocks are the videos themselves when no two
  different videos share an ID.
\<close>

lemma report_ids_in_source_order:
  assumes "run w cfg client schedule (init cfg vs) = Some s"
  shows "map ID (listed (printedOut (finalReport cfg s))) = map ID vs"
proof -
  have inv: "coordInv w cfg client s" and v: "videos s = vs"
    using coordInv_run [OF assms(1)] by simp_all
  have key: "allResults s k = Some r \<Longrightarrow> ID (VideoDetails r) = k" for k r
    using inv by (auto simp add: coordInv_def keyInv_def)
  show ?thesis
    by (auto simp add: finalReport_def listed_report v key split: option.splits)
qed

lemma report_items_in_source_order:
  assumes "run w cfg client schedule (init cfg vs) = Some s" and i: "inj_on ID (set vs)"
  shows "listed (printedOut (finalReport cfg s)) = vs"
proof -
  have inv: "coordInv w cfg client s" and v: "videos s = vs"
    using coordInv_run [OF assms(1)] by simp_all
  have key: "allResults s k = Some r \<Longrightarrow> ID (VideoDetails r) = k" for k r
    using inv by (auto simp add: coordInv_def keyInv_def)
  have "(case allResults s (ID x) of None \<Rightarrow> x | Some r \<Rightarrow> VideoDetails r) = x"
    if x: "x \<in> set vs" for x
  proof (cases "allResults s (ID x)")
    case None
    then show ?thesis by simp
  next
    case (Some r)
    have "VideoDetails r \<in> set vs" using stored_video [OF assms(1) Some] .
    moreover have "ID (VideoDetails r) = ID x" using key [OF Some] .
    ultimately have "VideoDetails r = x" using i x by (auto dest: inj_onD)
    then show ?thesis using Some by simp
  qed
  then show ?thesis by (simp add: finalReport_def listed_report v map_idI)
qed

text \<open>
  C1, as stated, fails: main does not require the IDs of the playlist to be unique, and
  on a playlist in which two different entries carry the same ID the report prints, for
  both, the entry whose result was collected last. With the first worker sending first
  both blocks show the second entry; with the second worker sending first both show the
  first: the report is not the playlist, and it depends on the order of completion.
\<close>

theorem report_in_source_order_counterexample:
  "map_option pc twiceListedRunA = Some Reporting
   \<and> map_option pc twiceListedRunB = Some Reporting
   \<and> listed (printedOut (finalReport exampleCfg (the twiceListedRunA))) =
       [\<lparr> ID = ''a'', Title = ''Second copy'' \<rparr>, \<lparr> ID = ''a'', Title = ''Second copy'' \<rparr>]
   \<and> listed (printedOut (finalReport exampleCfg (the twiceListedRunB))) =
       [\<lparr> ID = ''a'', Title = ''First copy'' \<rparr>, \<lparr> ID = ''a'', Title = ''First copy'' \<rparr>]
   \<and> listed (printedOut (finalReport exampleCfg (the twiceListedRunA))) \<noteq> twiceListed
   \<and> finalReport exampleCfg (the twiceListedRunA) \<noteq> finalReport exampleCfg (the twiceListedRunB)"
  by code_simp

text \<open>
  C1, amended. In every run that reaches the report on a playlist whose video IDs are
  unique, whatever the schedule (the order in which workers start, finish and are
  collected), the blocks of the report are exactly the videos of the playlist, each
  once, in the order of the playlist; and the whole report is the one computed from the
  workers' results in playlist order, so it does not depend on the schedule.
\<close>

theorem report_in_source_order:
  assumes "run w cfg client schedule (init cfg vs) = Some s" and "pc s = Reporting"
    and "distinct (map ID vs)"
  shows "listed (printedOut (finalReport cfg s)) = vs
       \<and> finalReport cfg s =
           report cfg vs (map_of (map (\<lambda>v. (ID v, resultOf w cfg client v)) vs))"
proof (intro conjI)
  have v: "videos s = vs" using coordInv_run [OF assms(1)] by simp
  have "inj_on ID (set vs)" using assms(3) by (simp add: distinct_map)
  then show "listed (printedOut (finalReport cfg s)) = vs"
    using report_items_in_source_order [OF assms(1)] by simp
  show "finalReport cfg s =
          report cfg vs (map_of (map (\<lambda>v. (ID v, resultOf w cfg client v)) vs))"
    using batch_lookup [OF assms] by (simp add: finalReport_def v)
qed

theorem report_in_source_order_witness:
  "map_option pc reverseRun = Some Reporting
   \<and> map_option pc forwardRun = Some Reporting
   \<and> distinct (map ID threeVideos)
   \<and> listed (printedOut (finalReport twoSlots (the reverseRun))) = threeVideos
   \<and> finalReport twoSlots (the reverseRun) = finalReport twoSlots (the forwardRun)"
proof -
  have p1: "map_option pc reverseRun = Some Reporting" by code_simp
  have p2: "map_option pc forwardRun = Some Reporting" by code_simp
  from p1 obtain s1 where r1: "reverseRun = Some s1" and s1: "pc s1 = Reporting" by auto
  from p2 obtain s2 where r2: "forwardRun = Some s2" and s2: "pc s2 = Reporting" by auto
  have d: "distinct (map ID threeVideos)" by (simp add: threeVideos_def)
  have o1: "listed (printedOut (finalReport twoSlots s1)) = threeVideos"
    and f1: "finalReport twoSlots s1 =
      report twoSlots threeVideos
        (map_of (map (\<lambda>v. (ID v, resultOf mixedWorld twoSlots (Some (textModel ''sum'')) v))
                  threeVideos))"
    using report_in_source_order [OF r1 [unfolded reverseRun_def] s1 d] by blast+
  have f2: "finalReport twoSlots s2 =
      report twoSlots threeVideos
        (map_of (map (\<lambda>v. (ID v, resultOf mixedWorld twoSlots (Some (textModel ''sum'')) v))
                  threeVideos))"
    using report_in_source_order [OF r2 [unfolded forwardRun_def] s2 d] by blast
  have x1: "listed (printedOut (finalReport twoSlots (the reverseRun))) = threeVideos"
    using o1 by (simp add: r1)
  have x2: "finalReport twoSlots (the reverseRun) = finalReport twoSlots (the forwardRun)"
    using f1 f2 by (simp add: r1 r2)
  show ?thesis using p1 p2 d x1 x2 by (intro conjI)
qed

text \<open>
  C3. For a playlist with distinct video IDs: resultsChannel is closed only when every
  video has been dispatched and every worker has finished, none of them by a panic (the
  coordinator waits for all outstanding workers). Once the run reaches the report, the
  channel is closed and drained and allResults holds, for each video, exactly the result
  of its worker under its ID and nothing else: as many results as videos, no duplicates
  and no omissions.
\<close>

theorem batch_complete:
  assumes "run w cfg client schedule (init cfg vs) = Some s" and "distinct (map ID vs)"
  shows "(closed s \<longrightarrow> pending s = [] \<and> map fst (workers s) = vs \<and> unfinished s = 0
            \<and> list_all (\<lambda>v. \<not> panics w cfg client v) vs)
       \<and> (pc s = Reporting \<longrightarrow>
            closed s \<and> resultsChannel s = []
          \<and> allResults s = map_of (map (\<lambda>v. (ID v, resultOf w cfg client v)) vs)
          \<and> card (dom (allResults s)) = length vs)"
proof (intro conjI impI)
  assume c: "closed s"
  show "pending s = []" "map fst (workers s) = vs" "unfinished s = 0"
    using closed_state [OF assms(1) c] by simp_all
  show "list_all (\<lambda>v. \<not> panics w cfg client v) vs"
    using closed_no_panic [OF assms(1) c] .
next
  assume p: "pc s = Reporting"
  show "closed s" "resultsChannel s = []" using reporting_state [OF assms(1) p] by simp_all
  show m: "allResults s = map_of (map (\<lambda>v. (ID v, resultOf w cfg client v)) vs)"
    using batch_lookup [OF assms(1) p assms(2)] .
  have "dom (allResults s) = ID ` set vs"
    by (simp add: m dom_map_of_conv_image_fst image_image)
  then show "card (dom (allResults s)) = length vs"
    using assms(2) by (metis distinct_card length_map set_map)
qed

theorem batch_complete_witness:
  "map_option pc reverseRun = Some Reporting
   \<and> distinct (map ID threeVideos)
   \<and> card (dom (allResults (the reverseRun))) = 3
   \<and> map (allResults (the reverseRun)) [''a'', ''b'', ''c'', ''d''] =
       [Some (resultOf mixedWorld twoSlots (Some (textModel ''sum'')) \<lparr> ID = ''a'', Title = ''First'' \<rparr>),
        Some (resultOf mixedWorld twoSlots (Some (textModel ''sum'')) \<lparr> ID = ''b'', Title = ''Second'' \<rparr>),
        Some (resultOf mixedWorld twoSlots (Some (textModel ''sum'')) \<lparr> ID = ''c'', Title = ''Third'' \<rparr>),
        None]"
proof -
  have p1: "map_option pc reverseRun = Some Reporting" by code_simp
  from p1 obtain s1 where r1: "reverseRun = Some s1" and s1: "pc s1 = Reporting" by auto
  have d: "distinct (map ID threeVideos)" by (simp add: threeVideos_def)
  have m: "allResults s1 =
      map_of (map (\<lambda>v. (ID v, resultOf mixedWorld twoSlots (Some (textModel ''sum'')) v))
                threeVideos)"
    and c: "card (dom (allResults s1)) = length threeVideos"
    using batch_complete [OF r1 [unfolded reverseRun_def] d] s1 by blast+
  have c3: "card (dom (allResults (the reverseRun))) = 3"
    using c by (simp add: r1 threeVideos_def)
  have l: "map (allResults (the reverseRun)) [''a'', ''b'', ''c'', ''d''] =
       [Some (resultOf mixedWorld twoSlots (Some (textModel ''sum'')) \<lparr> ID = ''a'', Title = ''First'' \<rparr>),
        Some (resultOf mixedWorld twoSlots (Some (textModel ''sum'')) \<lparr> ID = ''b'', Title = ''Second'' \<rparr>),
        Some (resultOf mixedWorld twoSlots (Some (textModel ''sum'')) \<lparr> ID = ''c'', Title = ''Third'' \<rparr>),
        None]"
    by (simp add: r1 m threeVideos_def)
  show ?thesis using p1 d c3 l by (intro conjI)
qed

lemma releases_snoc:
  "releases i (schedule @ [a]) = releases i schedule + (if a = Release i then 1 else 0)"
  by (simp add: releases_def)

lemma hasReleased_step:
  assumes "step w cfg client a s = Some s'"
  shows "hasReleased s' i = (hasReleased s i \<or> a = Release i)"
    and "a = Release i \<Longrightarrow> \<not> hasReleased s i"
proof -
  show "hasReleased s' i = (hasReleased s i \<or> a = Release i)"
  proof (cases a)
    case Dispatch
    then show ?thesis using assms
      by (auto simp add: hasReleased_def nth_append split: list.splits if_splits)
  next
    case (Work j)
    then show ?thesis using step_Work [OF assms [unfolded Work]]
      by (auto simp add: hasReleased_def inPhase_def split: if_splits)
  next
    case (Release j)
    then show ?thesis using step_Release [OF assms [unfolded Release]]
      by (auto simp add: hasReleased_def inPhase_def split: if_splits)
  next
    case (Done j)
    then show ?thesis using step_Done [OF assms [unfolded Done]]
      by (auto simp add: hasReleased_def inPhase_def split: if_splits)
  qed (use assms in \<open>auto simp add: hasReleased_def split: list.splits if_splits\<close>)
  show "a = Release i \<Longrightarrow> \<not> hasReleased s i"
    using step_Release [of w cfg client i s s'] assms
    by (auto simp add: hasReleased_def inPhase_def)
qed

lemma releases_run:
  assumes "run w cfg client schedule (init cfg vs) = Some s"
  shows "releases i schedule = (if hasReleased s i then 1 else 0)"
  using assms
proof (induction rule: run_induct)
  case Init
  show ?case by (simp add: releases_def hasReleased_def init_def)
next
  case (Step schedule s a s')
  show ?case
    using Step.IH hasReleased_step [OF Step.hyps(2), of i]
    by (auto simp add: releases_snoc)
qed

text \<open>
  C2. In every state of every run, for every playlist, the workers that are in their
  body (running getVideoTranscript or the summarizer) are at most ConcurrencyLimit: each
  worker holds a slot of the semaphore channel from its start until its deferred
  release, the slots held are the values in the channel, and the channel never holds
  more than its capacity. Each worker releases its slot once and only once (it has
  released exactly when it is past the deferred receive), whichever return its body
  took; once resultsChannel is closed every worker has released exactly once. The limit
  is not negative (5 in every configuration that initializeAppConfig builds).
\<close>

theorem concurrency_limit_respected:
  assumes "run w cfg client schedule (init cfg vs) = Some s" and "0 \<le> ConcurrencyLimit cfg"
  shows "int (executing s) \<le> ConcurrencyLimit cfg
       \<and> holding s = semaphore s
       \<and> int (semaphore s) \<le> ConcurrencyLimit cfg
       \<and> list_all (\<lambda>i. releases i schedule = (if hasReleased s i then 1 else 0))
            [0..<length (workers s)]
       \<and> (closed s \<longrightarrow> list_all (\<lambda>i. releases i schedule = 1) [0..<length vs])"
proof (intro conjI impI)
  have inv: "slotInv cfg s" using slotInv_run [OF assms] .
  show "holding s = semaphore s" "int (semaphore s) \<le> ConcurrencyLimit cfg"
    using inv by (simp_all add: slotInv_def)
  then show "int (executing s) \<le> ConcurrencyLimit cfg"
    using executing_le_holding [of s] by simp
  show "list_all (\<lambda>i. releases i schedule = (if hasReleased s i then 1 else 0))
          [0..<length (workers s)]"
    using releases_run [OF assms(1)] by (simp add: list_all_iff)
  assume c: "closed s"
  have len: "length (workers s) = length vs"
    using closed_state(2) [OF assms(1) c] by (metis length_map)
  have "hasReleased s i" if "i < length vs" for i
    using closed_state(4) [OF assms(1) c, of i] that len by (simp add: hasReleased_def)
  then show "list_all (\<lambda>i. releases i schedule = 1) [0..<length vs]"
    using releases_run [OF assms(1)] by (simp add: list_all_iff)
qed


theorem concurrency_limit_respected_witness:
  "0 \<le> ConcurrencyLimit twoSlots
   \<and> map_option executing fullRun = Some 2
   \<and> int (executing (the fullRun)) \<le> ConcurrencyLimit twoSlots
   \<and> step mixedWorld twoSlots (Some (textModel ''sum'')) Dispatch (the fullRun) = None
   \<and> map_option closed reverseRun = Some True
   \<and> list_all (\<lambda>i. releases i reverseSchedule = 1) [0..<length threeVideos]"
proof -
  have l: "0 \<le> ConcurrencyLimit twoSlots" by (simp add: twoSlots_def)
  have e: "map_option executing fullRun = Some 2" by code_simp
  have b: "step mixedWorld twoSlots (Some (textModel ''sum'')) Dispatch (the fullRun) = None"
    by code_simp
  have c: "map_option closed reverseRun = Some True" by code_simp
  from e obtain s1 where r1: "fullRun = Some s1" by auto
  from c obtain s2 where r2: "reverseRun = Some s2" and c2: "closed s2" by auto
  have t1: "int (executing s1) \<le> ConcurrencyLimit twoSlots"
    using concurrency_limit_respected [OF r1 [unfolded fullRun_def] l] by blast
  have t2: "list_all (\<lambda>i. releases i reverseSchedule = 1) [0..<length threeVideos]"
    using concurrency_limit_respected [OF r2 [unfolded reverseRun_def] l] c2 by blast
  have x1: "int (executing (the fullRun)) \<le> ConcurrencyLimit twoSlots"
    using t1 by (simp add: r1)
  show ?thesis using l e x1 b c t2 by (intro conjI)
qed

section \<open>Some run always reaches the report\<close>

text \<open>
  With at least one slot and no worker that panics, the sequential schedule takes every
  playlist that is not empty to the report: the facts about runs that end are about
  something.
\<close>

lemma sequential_block:
  assumes "k < length vs" and "1 \<le> ConcurrencyLimit cfg"
    and "\<not> panics w cfg client (vs ! k)"
  shows "run w cfg client [Dispatch, Work k, Release k, Done k] (afterSequential w cfg client vs k)
         = Some (afterSequential w cfg client vs (Suc k))"
proof -
  have d: "drop k vs = vs ! k # drop (Suc k) vs"
    using assms(1) by (simp add: Cons_nth_drop_Suc)
  have t: "take (Suc k) vs = take k vs @ [vs ! k]"
    using assms(1) by (simp add: take_Suc_conv_app_nth)
  have l: "length (take k vs) = k" using assms(1) by simp
  obtain r where r: "fst (worker w cfg client (vs ! k)) = Inr r"
    using assms(3) by (cases "fst (worker w cfg client (vs ! k))") (simp_all add: panics_def)
  show ?thesis
    using assms(1,2) l r
    by (simp add: afterSequential_def d t inPhase_def setPhase_def nth_append resultOf_def
          list_update_append)
qed

lemma sequential_blocks:
  assumes "k \<le> length vs" and "1 \<le> ConcurrencyLimit cfg" and "vs \<noteq> []"
    and "\<forall>v \<in> set vs. \<not> panics w cfg client v"
  shows "run w cfg client (concat (map (\<lambda>i. [Dispatch, Work i, Release i, Done i]) [0..<k]))
           (init cfg vs) = Some (afterSequential w cfg client vs k)"
  using assms(1)
proof (induction k)
  case 0
  then show ?case using assms(2,3) by (simp add: init_def afterSequential_def)
next
  case (Suc k)
  then have k: "k < length vs" by simp
  have "run w cfg client (concat (map (\<lambda>i. [Dispatch, Work i, Release i, Done i]) [0..<k]))
           (init cfg vs) = Some (afterSequential w cfg client vs k)"
    using Suc by simp
  moreover have "\<not> panics w cfg client (vs ! k)" using assms(4) k by simp
  ultimately show ?case
    using sequential_block [OF k assms(2), of w client]
    by (simp add: run_append del: run.simps)
qed

lemma collect_all:
  assumes "pc s = Collecting" and "length (resultsChannel s) = n"
  shows "\<exists>s'. run w cfg client (replicate n Collect) s = Some s' \<and> pc s' = Collecting
            \<and> resultsChannel s' = [] \<and> closed s' = closed s"
  using assms
proof (induction n arbitrary: s)
  case 0
  then show ?case by simp
next
  case (Suc n)
  then obtain r rest where c: "resultsChannel s = r # rest" and n: "length rest = n"
    by (cases "resultsChannel s") auto
  let ?s1 = "s \<lparr> allResults := (allResults s)(ID (VideoDetails r) \<mapsto> r), resultsChannel := rest \<rparr>"
  have st: "step w cfg client Collect s = Some ?s1" using c Suc.prems(1) by simp
  have "\<exists>s'. run w cfg client (replicate n Collect) ?s1 = Some s' \<and> pc s' = Collecting
            \<and> resultsChannel s' = [] \<and> closed s' = closed ?s1"
    by (rule Suc.IH) (use Suc.prems(1) n in simp_all)
  then show ?case using st by auto
qed

lemma run_append_Some:
  "run w cfg client xs s = Some s' \<Longrightarrow> run w cfg client (xs @ ys) s = run w cfg client ys s'"
  by (simp add: run_append)

lemma sequential_run_completes:
  assumes "vs \<noteq> []" and "1 \<le> ConcurrencyLimit cfg"
    and "\<forall>v \<in> set vs. \<not> panics w cfg client v"
  shows "\<exists>s. run w cfg client (sequentialSchedule (length vs)) (init cfg vs) = Some s
            \<and> pc s = Reporting"
proof -
  let ?n = "length vs"
  let ?s1 = "afterSequential w cfg client vs ?n"
  let ?s2 = "?s1 \<lparr> pc := Collecting, closed := True \<rparr>"
  have r1: "run w cfg client (concat (map (\<lambda>i. [Dispatch, Work i, Release i, Done i]) [0..<?n]))
              (init cfg vs) = Some ?s1"
    by (rule sequential_blocks) (use assms in simp_all)
  have r2: "run w cfg client [ExitLoop, Close] ?s1 = Some ?s2"
    by (simp add: afterSequential_def)
  obtain s3 where r3: "run w cfg client (replicate ?n Collect) ?s2 = Some s3"
    and p3: "pc s3 = Collecting" and c3: "resultsChannel s3 = []" and cl: "closed s3"
    using collect_all [of ?s2 ?n w cfg client] by (auto simp add: afterSequential_def)
  have r4: "run w cfg client [EndCollect] s3 = Some (s3 \<lparr> pc := Reporting \<rparr>)"
    using p3 c3 cl by simp
  have "run w cfg client (sequentialSchedule (length vs)) (init cfg vs)
          = Some (s3 \<lparr> pc := Reporting \<rparr>)"
    unfolding sequentialSchedule_def run_append_Some [OF r1] run_append_Some [OF r2]
      run_append_Some [OF r3] r4 ..
  then show ?thesis by simp
qed

text \<open>
  A worker that panics ends the process: after its deferred calls nothing runs any more,
  the channel is never closed and no report is printed. This is what an answer whose
  only candidate has no content does.
\<close>

lemma crashed_is_final: "pc s = Crashed \<Longrightarrow> step w cfg client a s = None"
  by (cases a) (auto split: list.splits)

lemma run_from_crashed:
  "pc s = Crashed \<Longrightarrow> run w cfg client schedule s = Some s' \<Longrightarrow> schedule = []"
  by (cases schedule) (simp_all add: crashed_is_final)

lemma crashed_never_reports:
  assumes "run w cfg client schedule (init cfg vs) = Some s" and "pc s = Crashed"
  shows "run w cfg client (schedule @ a # rest) (init cfg vs) = None"
  using assms by (simp add: run_append crashed_is_final)

lemma contentless_answer_crashes:
  "map_option pc contentlessRun = Some Crashed
   \<and> map_option closed contentlessRun = Some False
   \<and> map_option resultsChannel contentlessRun = Some []"
  by code_simp

section \<open>The counters of the report\<close>

lemma counts_reportVideo:
  "successfulSummaries (reportVideo cfg m rep v) =
     successfulSummaries rep + (if hasSummary m v then 1 else 0)"
  "videosWithErrors (reportVideo cfg m rep v) =
     videosWithErrors rep + (if countedAsError m v then 1 else 0)"
  by (simp_all add: reportVideo_def hasSummary_def countedAsError_def Let_def split: option.splits)

lemma counts_foldl:
  "successfulSummaries (foldl (reportVideo cfg m) rep vs) =
     successfulSummaries rep + int (length (filter (hasSummary m) vs))"
  "videosWithErrors (foldl (reportVideo cfg m) rep vs) =
     videosWithErrors rep + int (length (filter (countedAsError m) vs))"
  by (induction vs arbitrary: rep) (simp_all add: counts_reportVideo)

lemma report_counts:
  "successfulSummaries (report cfg vs m) = int (length (filter (hasSummary m) vs))"
  "videosWithErrors (report cfg vs m) = int (length (filter (countedAsError m) vs))"
  by (simp_all add: report_def counts_foldl)

text \<open>
  C9. The counter of successful summaries is the number of videos whose stored summary
  is not empty, and the counter logged as "Videos with errors/no summary" is the number
  of videos with a missing result or a stored error (the two lemmas above). A result
  with no error and an empty summary is counted by neither: when the model answers with
  a blank, the worker stores the empty summary without error, the report prints "No
  summary generated" for the video, and both counters stay at 0 for a playlist of one.
\<close>

theorem blank_summary_counted_nowhere:
  "fst (worker (exampleWorld succeedingRun [''abc.en.vtt''] ''hello world'') exampleCfg
         (Some (textModel '' '')) exampleVideo) =
     Inr \<lparr> VideoDetails = exampleVideo, Summary = [], Err = None \<rparr>
   \<and> map_option (finalReport exampleCfg) blankRun =
     Some \<lparr> printedOut = [VideoHeader ''abc'' ''A video'', StatusNoSummary, Separator],
            successfulSummaries = 0, videosWithErrors = 0 \<rparr>"
  by code_simp

end
